(* ===== verification/Hawk_Prelude.thy ===== *)
theory Hawk_Prelude
  imports Main "HOL-Library.Sublist" "HOL-Library.Multiset"
begin

text \<open>
  Shared vocabulary of the development: Rust's \<open>Result\<close> as a sum with its
  \<open>?\<close> operator, Rust's \<open>Ordering\<close> with \<open>then_with\<close>, the stable
  \<open>sort_by\<close> of slices, reachability in a transition system, and the loop contract
  that all line-driven threads of the program follow.
\<close>

named_theorems result_simps \<open>inversion of and_then and of checks on results\<close>

section \<open>Result and the question mark operator\<close>

abbreviation Ok :: "'a \<Rightarrow> 'e + 'a" where
  "Ok \<equiv> Inr"

abbreviation Err :: "'e \<Rightarrow> 'e + 'a" where
  "Err \<equiv> Inl"

fun and_then :: "'e + 'a \<Rightarrow> ('a \<Rightarrow> 'e + 'b) \<Rightarrow> 'e + 'b" where
  "and_then (Inl e) f = Inl e"
| "and_then (Inr x) f = f x"

fun map_err :: "('e \<Rightarrow> 'f) \<Rightarrow> 'e + 'a \<Rightarrow> 'f + 'a" where
  "map_err h (Inl e) = Inl (h e)"
| "map_err h (Inr x) = Inr x"

definition ok_or :: "'e \<Rightarrow> 'a option \<Rightarrow> 'e + 'a" where
  "ok_or e v = (case v of None \<Rightarrow> Inl e | Some x \<Rightarrow> Inr x)"

lemma ok_or_simps [simp]:
  "ok_or e None = Inl e" "ok_or e (Some x) = Inr x"
  by (simp_all add: ok_or_def)

lemma and_then_Inr_iff [result_simps]:
  "and_then r f = Inr y \<longleftrightarrow> (\<exists>x. r = Inr x \<and> f x = Inr y)"
  by (cases r) auto

lemma and_then_Inl_iff [result_simps]:
  "and_then r f = Inl e \<longleftrightarrow> r = Inl e \<or> (\<exists>x. r = Inr x \<and> f x = Inl e)"
  by (cases r) auto

lemma map_err_Inr_iff [result_simps]: "map_err h r = Inr y \<longleftrightarrow> r = Inr y"
  by (cases r) auto

lemma map_err_Inl_iff [result_simps]: "map_err h r = Inl e \<longleftrightarrow> (\<exists>d. r = Inl d \<and> e = h d)"
  by (cases r) auto

lemma ok_or_Inr_iff [result_simps]: "ok_or e v = Inr x \<longleftrightarrow> v = Some x"
  by (cases v) auto

lemma ok_or_Inl_iff [result_simps]: "ok_or e v = Inl d \<longleftrightarrow> v = None \<and> d = e"
  by (cases v) auto

text \<open>A loop whose body may return early with an error, as \<open>for x in xs \<dots> ?\<close>.\<close>

fun try_map :: "('a \<Rightarrow> 'e + 'b) \<Rightarrow> 'a list \<Rightarrow> 'e + 'b list" where
  "try_map f [] = Ok []"
| "try_map f (x # xs) = and_then (f x) (\<lambda>y. and_then (try_map f xs) (\<lambda>ys. Ok (y # ys)))"

lemma try_map_Inr_iff:
  "try_map f xs = Inr ys \<longleftrightarrow> list_all2 (\<lambda>x y. f x = Inr y) xs ys"
  by (induction xs arbitrary: ys) (auto simp: result_simps list_all2_Cons1)

lemma try_map_Inr_set:
  assumes "try_map f xs = Inr ys" and "y \<in> set ys"
  shows "\<exists>x \<in> set xs. f x = Inr y"
  using assms by (induction xs arbitrary: ys) (auto simp: result_simps)

lemma try_map_Inl:
  assumes "try_map f xs = Inl e"
  shows "\<exists>us x vs. xs = us @ x # vs \<and> f x = Inl e \<and> (\<forall>u \<in> set us. \<exists>y. f u = Inr y)"
  using assms
proof (induction xs)
  case Nil
  then show ?case by simp
next
  case (Cons a xs)
  show ?case
  proof (cases "f a")
    case (Inl d)
    with Cons.prems show ?thesis
      by (intro exI [of _ "[]"]) auto
  next
    case (Inr b)
    with Cons.prems have "try_map f xs = Inl e"
      by (auto simp: result_simps)
    with Cons.IH obtain us x vs where
      "xs = us @ x # vs" "f x = Inl e" "\<forall>u \<in> set us. \<exists>y. f u = Inr y"
      by blast
    with Inr show ?thesis
      by (intro exI [of _ "a # us"]) auto
  qed
qed

section \<open>Ordering and stable sorting\<close>

text \<open>\<open>std::cmp::Ordering\<close>, its lexicographic \<open>then_with\<close>, and \<open>Ord::cmp\<close>.\<close>

datatype ordering = Less | Equal | Greater

fun then_with :: "ordering \<Rightarrow> ordering \<Rightarrow> ordering" where
  "then_with Equal b = b"
| "then_with Less b = Less"
| "then_with Greater b = Greater"

definition cmp :: "'a::linorder \<Rightarrow> 'a \<Rightarrow> ordering" where
  "cmp a b = (if a < b then Less else if a = b then Equal else Greater)"

lemma cmp_iff [simp]:
  "cmp a b = Less \<longleftrightarrow> a < b" "cmp a b = Equal \<longleftrightarrow> a = b" "cmp a b = Greater \<longleftrightarrow> b < a"
  by (auto simp: cmp_def)

lemma case_cmp [simp]:
  "(case cmp a b of Less \<Rightarrow> x | Equal \<Rightarrow> y | Greater \<Rightarrow> z) =
     (if a < b then x else if a = b then y else z)"
  by (auto simp: cmp_def)

lemma then_with_iff [simp]:
  "then_with a b = Less \<longleftrightarrow> a = Less \<or> (a = Equal \<and> b = Less)"
  "then_with a b = Equal \<longleftrightarrow> a = Equal \<and> b = Equal"
  "then_with a b = Greater \<longleftrightarrow> a = Greater \<or> (a = Equal \<and> b = Greater)"
  by (cases a; auto)+

text \<open>
  \<open>slice::sort_by\<close> is a stable sort by a comparison function. Insertion from the right
  keeps equal elements in their order, so it computes the same list.
\<close>

fun insert_by :: "('a \<Rightarrow> 'a \<Rightarrow> ordering) \<Rightarrow> 'a \<Rightarrow> 'a list \<Rightarrow> 'a list" where
  "insert_by c x [] = [x]"
| "insert_by c x (y # ys) = (if c x y = Greater then y # insert_by c x ys else x # y # ys)"

fun sort_by :: "('a \<Rightarrow> 'a \<Rightarrow> ordering) \<Rightarrow> 'a list \<Rightarrow> 'a list" where
  "sort_by c [] = []"
| "sort_by c (x # xs) = insert_by c x (sort_by c xs)"

lemma mset_insert_by [simp]: "mset (insert_by c x xs) = add_mset x (mset xs)"
  by (induction xs) auto

lemma mset_sort_by [simp]: "mset (sort_by c xs) = mset xs"
  by (induction xs) auto

lemma set_insert_by [simp]: "set (insert_by c x xs) = insert x (set xs)"
  by (induction xs) auto

lemma set_sort_by [simp]: "set (sort_by c xs) = set xs"
  by (induction xs) auto

lemma length_sort_by [simp]: "length (sort_by c xs) = length xs"
  by (metis mset_sort_by size_mset)

lemma antisym_sorted_wrt_unique:
  assumes "sorted_wrt r xs" and "sorted_wrt r ys" and "mset xs = mset ys"
    and anti: "\<And>x y. x \<in> set xs \<Longrightarrow> y \<in> set xs \<Longrightarrow> r x y \<Longrightarrow> r y x \<Longrightarrow> x = y"
  shows "xs = ys"
  using assms
proof (induction xs arbitrary: ys)
  case Nil
  then show ?case by simp
next
  case (Cons x xs)
  then obtain y ys' where ys: "ys = y # ys'" by (cases ys) auto
  have sets: "insert x (set xs) = insert y (set ys')"
    using Cons.prems(3) ys by (metis list.simps(15) set_mset_mset)
  have "x = y"
  proof (cases "x = y")
    case False
    with sets have "y \<in> set xs" "x \<in> set ys'" by auto
    with Cons.prems ys show ?thesis by auto
  qed
  moreover have "xs = ys'"
    using Cons ys \<open>x = y\<close> by auto
  ultimately show ?case using ys by simp
qed

text \<open>The law Rust asks of a comparator: the order is total and transitive.\<close>

locale total_preorder =
  fixes c :: "'a \<Rightarrow> 'a \<Rightarrow> ordering"
  assumes flip: "c x y = Greater \<longleftrightarrow> c y x = Less"
    and trans_le: "c x y \<noteq> Greater \<Longrightarrow> c y z \<noteq> Greater \<Longrightarrow> c x z \<noteq> Greater"
begin

lemma refl_Equal: "c x x = Equal"
  using flip [of x x] by (cases "c x x") auto

lemma Equal_sym: "c x y = Equal \<Longrightarrow> c y x = Equal"
  using flip [of x y] flip [of y x] by (cases "c y x") auto

lemma Equal_trans: "c x y = Equal \<Longrightarrow> c y z = Equal \<Longrightarrow> c x z = Equal"
  by (metis Equal_sym flip ordering.distinct(5) ordering.exhaust ordering.simps(4) trans_le)

lemma Greater_not: "c x y = Greater \<Longrightarrow> c y x \<noteq> Greater"
  using flip [of x y] by auto

lemma sorted_insert_by:
  "sorted_wrt (\<lambda>a b. c a b \<noteq> Greater) xs \<Longrightarrow>
   sorted_wrt (\<lambda>a b. c a b \<noteq> Greater) (insert_by c x xs)"
proof (induction xs)
  case Nil
  then show ?case by simp
next
  case (Cons y ys)
  then show ?case
    by (auto dest: Greater_not) (blast dest: trans_le)
qed

lemma sorted_sort_by: "sorted_wrt (\<lambda>a b. c a b \<noteq> Greater) (sort_by c xs)"
  by (induction xs) (auto intro: sorted_insert_by)

lemma filter_insert_by:
  "filter (\<lambda>y. c k y = Equal) (insert_by c x xs) = filter (\<lambda>y. c k y = Equal) (x # xs)"
proof (induction xs)
  case Nil
  then show ?case by simp
next
  case (Cons y ys)
  have "c x y = Greater \<Longrightarrow> \<not> (c k x = Equal \<and> c k y = Equal)"
    by (metis Equal_sym Equal_trans ordering.distinct(5))
  with Cons show ?case by auto
qed

text \<open>Stability: elements that compare equal keep their order.\<close>

lemma sort_by_stable:
  "filter (\<lambda>y. c k y = Equal) (sort_by c xs) = filter (\<lambda>y. c k y = Equal) xs"
  by (induction xs) (auto simp: filter_insert_by)

lemma insert_by_least:
  "\<forall>y \<in> set ys. c x y \<noteq> Greater \<Longrightarrow> insert_by c x ys = x # ys"
  by (cases ys) auto

lemma sort_by_sorted:
  "sorted_wrt (\<lambda>a b. c a b \<noteq> Greater) xs \<Longrightarrow> sort_by c xs = xs"
  by (induction xs) (auto simp: insert_by_least)

text \<open>Sorting does not depend on the order of the input where equal means identical.\<close>

lemma sort_by_unique:
  assumes "mset xs = mset ys" and "\<And>x y. x \<in> set xs \<Longrightarrow> y \<in> set xs \<Longrightarrow> c x y = Equal \<Longrightarrow> x = y"
  shows "sort_by c xs = sort_by c ys"
proof (rule antisym_sorted_wrt_unique)
  show "mset (sort_by c xs) = mset (sort_by c ys)"
    using assms(1) by simp
  show "x = y" if "x \<in> set (sort_by c xs)" "y \<in> set (sort_by c xs)"
    "c x y \<noteq> Greater" "c y x \<noteq> Greater" for x y
  proof -
    from that have "c x y = Equal"
      using flip [of y x] by (cases "c x y") auto
    with that assms(2) show ?thesis by simp
  qed
qed (rule sorted_sort_by)+

end

section \<open>Transition systems\<close>

inductive reach :: "('s \<Rightarrow> bool) \<Rightarrow> ('s \<Rightarrow> 's \<Rightarrow> bool) \<Rightarrow> 's \<Rightarrow> bool"
  for start :: "'s \<Rightarrow> bool" and step :: "'s \<Rightarrow> 's \<Rightarrow> bool" where
  reach_start: "start s \<Longrightarrow> reach start step s"
| reach_step: "reach start step s \<Longrightarrow> step s t \<Longrightarrow> reach start step t"

locale invariant_system =
  fixes start :: "'s \<Rightarrow> bool" and step :: "'s \<Rightarrow> 's \<Rightarrow> bool" and I :: "'s \<Rightarrow> bool"
  assumes I_start: "start s \<Longrightarrow> I s"
    and I_step: "I s \<Longrightarrow> step s t \<Longrightarrow> I t"
begin

lemma reach_I: "reach start step s \<Longrightarrow> I s"
  by (induction rule: reach.induct) (auto intro: I_start I_step)

lemma steps_I: "step\<^sup>*\<^sup>* s t \<Longrightarrow> I s \<Longrightarrow> I t"
  by (induction rule: rtranclp_induct) (auto intro: I_step)

end

section \<open>Line-driven loops\<close>

text \<open>
  Every reader thread of the program is the same loop: take the next event, emit some
  messages, stop or go on; the end of the input ends the loop. A loop given by its one-step
  function satisfies this contract, and what it emits is determined by the events up to and
  including the first one that stops it.
\<close>

fun until_stop :: "('e \<Rightarrow> bool) \<Rightarrow> 'e list \<Rightarrow> 'e list" where
  "until_stop p [] = []"
| "until_stop p (e # es) = (if p e then [e] else e # until_stop p es)"

lemma until_stop_none: "\<forall>e \<in> set es. \<not> p e \<Longrightarrow> until_stop p es = es"
  by (induction es) auto

lemma until_stop_split:
  "\<forall>e \<in> set us. \<not> p e \<Longrightarrow> p x \<Longrightarrow> until_stop p (us @ x # vs) = us @ [x]"
  by (induction us) auto

lemma prefix_until_stop: "prefix (until_stop p es) es"
  by (induction es) auto

locale event_loop =
  fixes emit :: "'e \<Rightarrow> 'm list" and halts :: "'e \<Rightarrow> bool" and run :: "'e list \<Rightarrow> 'm list"
  assumes run_Nil: "run [] = []"
    and run_Cons: "run (e # es) = emit e @ (if halts e then [] else run es)"
begin

lemma run_concat: "run es = concat (map emit (until_stop halts es))"
  by (induction es) (auto simp: run_Nil run_Cons)

lemma run_all: "\<forall>e \<in> set es. \<not> halts e \<Longrightarrow> run es = concat (map emit es)"
  by (simp add: run_concat until_stop_none)

lemma run_stops:
  "\<forall>e \<in> set us. \<not> halts e \<Longrightarrow> halts x \<Longrightarrow> run (us @ x # vs) = concat (map emit us) @ emit x"
  by (simp add: run_concat until_stop_split)

lemma run_append:
  "\<forall>e \<in> set us. \<not> halts e \<Longrightarrow> run (us @ vs) = run us @ run vs"
  by (induction us) (auto simp: run_Nil run_Cons)

text \<open>After an event that stops the loop and emits nothing, nothing is emitted.\<close>

lemma run_silent_stop: "halts x \<Longrightarrow> emit x = [] \<Longrightarrow> run (us @ x # vs) = run us"
  by (induction us) (auto simp: run_Nil run_Cons)

lemma run_prefix: "prefix us es \<Longrightarrow> prefix (run us) (run es)"
proof (induction us arbitrary: es)
  case Nil
  then show ?case by (simp add: run_Nil)
next
  case (Cons u us)
  then show ?case by (cases es) (auto simp: run_Cons)
qed

end

section \<open>Merging streams\<close>

text \<open>The messages of several senders on one channel: each sender's messages in their order.\<close>

inductive merges :: "'a list list \<Rightarrow> 'a list \<Rightarrow> bool" where
  merges_done: "\<forall>xs \<in> set xss. xs = [] \<Longrightarrow> merges xss []"
| merges_take: "i < length xss \<Longrightarrow> xss ! i = x # xs \<Longrightarrow> merges (xss[i := xs]) zs \<Longrightarrow> merges xss (x # zs)"

text \<open>What only one sender sends arrives in the order sent.\<close>

lemma merges_filter:
  assumes "merges xss zs" and "i < length xss"
    and "\<forall>j < length xss. j \<noteq> i \<longrightarrow> filter P (xss ! j) = []"
  shows "filter P zs = filter P (xss ! i)"
  using assms
proof (induction arbitrary: rule: merges.induct)
  case (merges_done xss)
  then have "xss ! i = []" using nth_mem by blast
  then show ?case by simp
next
  case (merges_take k xss x xs zs)
  have "filter P ((xss[k := xs]) ! j) = []" if "j < length xss" "j \<noteq> i" for j
    using merges_take.prems(2) merges_take.hyps(1,2) that by (cases "j = k") (auto split: if_splits)
  with merges_take.IH merges_take.prems(1) have ih: "filter P zs = filter P ((xss[k := xs]) ! i)"
    by simp
  show ?case
  proof (cases "k = i")
    case True
    with ih merges_take.hyps show ?thesis by simp
  next
    case False
    with merges_take.prems(2) merges_take.hyps(1,2) have "filter P (x # xs) = []" by metis
    then have "\<not> P x" by (auto split: if_splits)
    with ih False show ?thesis by simp
  qed
qed

lemma sum_list_update_Cons:
  fixes f :: "'a \<Rightarrow> nat"
  shows "i < length xs \<Longrightarrow> f (xs ! i) = c + f y \<Longrightarrow>
    sum_list (map f xs) = c + sum_list (map f (xs[i := y]))"
proof (induction xs arbitrary: i)
  case (Cons x xs)
  then show ?case by (cases i) auto
qed simp

lemma merges_count:
  "merges xss zs \<Longrightarrow> length (filter P zs) = sum_list (map (\<lambda>xs. length (filter P xs)) xss)"
proof (induction rule: merges.induct)
  case (merges_done xss)
  then have "map (\<lambda>xs. length (filter P xs)) xss = map (\<lambda>_. 0) xss" by auto
  then show ?case by (simp add: sum_list_0)
next
  case (merges_take i xss x xs zs)
  have "length (filter P (xss ! i)) = (if P x then 1 else 0) + length (filter P xs)"
    using merges_take.hyps(2) by simp
  from sum_list_update_Cons [where f = "\<lambda>xs. length (filter P xs)", OF merges_take.hyps(1) this]
  show ?case using merges_take.IH by simp
qed

end
