(* ===== verification/Rust_Str.thy ===== *)
theory Rust_Str
  imports Hawk_Prelude "HOL-Library.Char_ord" "HOL-Library.List_Lexorder"
begin

text \<open>
  Rust strings. A \<open>String\<close> or \<open>&str\<close> is its UTF-8 byte sequence, a \<open>string\<close>
  of HOL whose characters are bytes: \<open>len\<close> counts bytes, \<open>Ord\<close> compares bytes
  lexicographically, and searching for an ASCII pattern is a search for its bytes. The
  operations of \<open>std::str\<close> the program calls are defined here: \<open>trim\<close> and its
  variants, \<open>split\<close>, \<open>split_once\<close>, \<open>join\<close>, \<open>lines\<close>, \<open>contains\<close>,
  \<open>replace\<close>, \<open>to_ascii_lowercase\<close>, \<open>truncate\<close>, and decimal printing and
  parsing of \<open>i64\<close>.
\<close>

named_theorems str_simps \<open>characterisations of the string operations\<close>

abbreviation TAB :: char where "TAB \<equiv> CHR 0x09"
abbreviation LF :: char where "LF \<equiv> CHR 0x0A"
abbreviation CR :: char where "CR \<equiv> CHR 0x0D"
abbreviation DQ :: char where "DQ \<equiv> CHR 0x22"

section \<open>Trimming\<close>

text \<open>The UTF-8 encodings of the characters with the Unicode property White\_Space.\<close>

definition white_space :: "string list" where
  "white_space =
    [[CHR 0x09], [CHR 0x0A], [CHR 0x0B], [CHR 0x0C], [CHR 0x0D], [CHR 0x20],
     [CHR 0xC2, CHR 0x85], [CHR 0xC2, CHR 0xA0], [CHR 0xE1, CHR 0x9A, CHR 0x80],
     [CHR 0xE2, CHR 0x80, CHR 0x80], [CHR 0xE2, CHR 0x80, CHR 0x81],
     [CHR 0xE2, CHR 0x80, CHR 0x82], [CHR 0xE2, CHR 0x80, CHR 0x83],
     [CHR 0xE2, CHR 0x80, CHR 0x84], [CHR 0xE2, CHR 0x80, CHR 0x85],
     [CHR 0xE2, CHR 0x80, CHR 0x86], [CHR 0xE2, CHR 0x80, CHR 0x87],
     [CHR 0xE2, CHR 0x80, CHR 0x88], [CHR 0xE2, CHR 0x80, CHR 0x89],
     [CHR 0xE2, CHR 0x80, CHR 0x8A], [CHR 0xE2, CHR 0x80, CHR 0xA8],
     [CHR 0xE2, CHR 0x80, CHR 0xA9], [CHR 0xE2, CHR 0x80, CHR 0xAF],
     [CHR 0xE2, CHR 0x81, CHR 0x9F], [CHR 0xE3, CHR 0x80, CHR 0x80]]"

text \<open>Remove leading occurrences of any of the given non-empty patterns.\<close>

function strip_pre :: "string list \<Rightarrow> string \<Rightarrow> string" where
  "strip_pre ws s =
     (case find (\<lambda>w. w \<noteq> [] \<and> prefix w s) ws of
        None \<Rightarrow> s
      | Some w \<Rightarrow> strip_pre ws (drop (length w) s))"
  by pat_completeness auto
termination
  by (relation "measure (\<lambda>(ws, s). length s)") (auto simp: find_Some_iff prefix_def)

declare strip_pre.simps [simp del]

definition trim_start :: "string \<Rightarrow> string" where
  "trim_start s = strip_pre white_space s"

definition trim_end :: "string \<Rightarrow> string" where
  "trim_end s = rev (strip_pre (map rev white_space) (rev s))"

definition trim :: "string \<Rightarrow> string" where
  "trim s = trim_end (trim_start s)"

text \<open>\<open>trim_end_matches([c, d, \<dots>])\<close> with an array of ASCII characters.\<close>

definition trim_end_matches :: "char list \<Rightarrow> string \<Rightarrow> string" where
  "trim_end_matches cs s = rev (dropWhile (\<lambda>c. c \<in> set cs) (rev s))"

subsection \<open>What trimming leaves\<close>

definition starts_ws :: "string \<Rightarrow> bool" where
  "starts_ws s \<longleftrightarrow> (\<exists>w \<in> set white_space. prefix w s)"

definition ends_ws :: "string \<Rightarrow> bool" where
  "ends_ws s \<longleftrightarrow> (\<exists>w \<in> set white_space. suffix w s)"

lemma white_space_nonempty: "w \<in> set white_space \<Longrightarrow> w \<noteq> []"
  by (auto simp: white_space_def)

lemma strip_pre_None:
  "(\<forall>w \<in> set ws. w \<noteq> [] \<longrightarrow> \<not> prefix w s) \<Longrightarrow> strip_pre ws s = s"
proof -
  assume "\<forall>w \<in> set ws. w \<noteq> [] \<longrightarrow> \<not> prefix w s"
  then have "find (\<lambda>w. w \<noteq> [] \<and> prefix w s) ws = None"
    by (auto simp: find_None_iff)
  then show ?thesis by (subst strip_pre.simps) simp
qed

lemma strip_pre_suffix: "suffix (strip_pre ws s) s"
proof (induction ws s rule: strip_pre.induct)
  case (1 ws s)
  show ?case
  proof (cases "find (\<lambda>w. w \<noteq> [] \<and> prefix w s) ws")
    case None
    then show ?thesis by (subst strip_pre.simps) simp
  next
    case (Some w)
    with 1 have "suffix (strip_pre ws (drop (length w) s)) (drop (length w) s)" by blast
    then have "suffix (strip_pre ws (drop (length w) s)) s"
      using suffix_drop suffix_order.trans by blast
    with Some show ?thesis by (subst strip_pre.simps) simp
  qed
qed

lemma strip_pre_stop: "w \<in> set ws \<Longrightarrow> w \<noteq> [] \<Longrightarrow> \<not> prefix w (strip_pre ws s)"
proof (induction ws s rule: strip_pre.induct)
  case (1 ws s)
  show ?case
  proof (cases "find (\<lambda>w. w \<noteq> [] \<and> prefix w s) ws")
    case None
    then have "strip_pre ws s = s" by (subst strip_pre.simps) simp
    with None 1 show ?thesis by (auto simp: find_None_iff)
  next
    case (Some v)
    with 1 show ?thesis by (subst strip_pre.simps) simp
  qed
qed

lemma trim_start_suffix: "suffix (trim_start s) s"
  by (simp add: trim_start_def strip_pre_suffix)

lemma trim_end_prefix: "prefix (trim_end s) s"
  using strip_pre_suffix [of "map rev white_space" "rev s"]
  by (simp add: trim_end_def suffix_to_prefix)

lemma trim_start_stop: "\<not> starts_ws (trim_start s)"
  by (auto simp: trim_start_def starts_ws_def dest: strip_pre_stop white_space_nonempty)

lemma trim_end_stop: "\<not> ends_ws (trim_end s)"
proof
  assume "ends_ws (trim_end s)"
  then obtain w where w: "w \<in> set white_space" "suffix w (trim_end s)"
    by (auto simp: ends_ws_def)
  then have "prefix (rev w) (strip_pre (map rev white_space) (rev s))"
    by (simp add: trim_end_def suffix_to_prefix)
  moreover have "rev w \<in> set (map rev white_space)" "rev w \<noteq> []"
    using w white_space_nonempty by auto
  ultimately show False using strip_pre_stop by blast
qed

lemma trim_start_id: "\<not> starts_ws s \<Longrightarrow> trim_start s = s"
  by (auto simp: trim_start_def starts_ws_def intro!: strip_pre_None)

lemma trim_end_id: "\<not> ends_ws s \<Longrightarrow> trim_end s = s"
  by (auto simp: trim_end_def ends_ws_def suffix_to_prefix strip_pre_None)

lemma starts_ws_prefix: "prefix s t \<Longrightarrow> starts_ws s \<Longrightarrow> starts_ws t"
  by (auto simp: starts_ws_def intro: prefix_order.trans)

definition trimmed :: "string \<Rightarrow> bool" where
  "trimmed s \<longleftrightarrow> \<not> starts_ws s \<and> \<not> ends_ws s"

lemma trimmed_trim [simp, intro]: "trimmed (trim s)"
  using trim_end_stop trim_start_stop starts_ws_prefix [OF trim_end_prefix]
  by (auto simp: trimmed_def trim_def)

lemma trim_id [simp]: "trimmed s \<Longrightarrow> trim s = s"
  by (simp add: trimmed_def trim_def trim_start_id trim_end_id)

lemma trim_eq_self_iff: "trim s = s \<longleftrightarrow> trimmed s"
  by (metis trim_id trimmed_trim)

lemma trim_idem [simp]: "trim (trim s) = trim s"
  by simp

lemma set_trim_start: "set (trim_start s) \<subseteq> set s"
  using trim_start_suffix by (rule set_mono_suffix)

lemma set_trim_end: "set (trim_end s) \<subseteq> set s"
  using trim_end_prefix by (rule set_mono_prefix)

lemma set_trim: "set (trim s) \<subseteq> set s"
  unfolding trim_def using set_trim_start set_trim_end by blast

lemma trimmed_Nil [simp]: "trimmed []"
  by (auto simp: trimmed_def starts_ws_def ends_ws_def dest: white_space_nonempty)

lemma ws_Nil [simp]: "\<not> starts_ws []" "\<not> ends_ws []"
  using trimmed_Nil unfolding trimmed_def by auto

lemma trim_Nil [simp]: "trim [] = []"
  by simp

text \<open>
  A string all of whose bytes lie outside the bytes of white space is trimmed; so is a
  concatenation of trimmed strings around such a byte.
\<close>

definition ws_byte :: "char \<Rightarrow> bool" where
  "ws_byte c \<longleftrightarrow> c \<in> set (concat white_space)"

lemma ws_byteI: "w \<in> set white_space \<Longrightarrow> c \<in> set w \<Longrightarrow> ws_byte c"
  by (auto simp: ws_byte_def)

lemma starts_ws_append:
  assumes "\<not> ws_byte c"
  shows "starts_ws (s @ c # t) \<longleftrightarrow> starts_ws s"
proof
  assume "starts_ws (s @ c # t)"
  then obtain w where w: "w \<in> set white_space" "prefix w (s @ c # t)"
    by (auto simp: starts_ws_def)
  from w(2) consider "prefix w s" | us where "w = s @ us" "prefix us (c # t)"
    by (auto simp: prefix_append)
  then show "starts_ws s"
  proof cases
    case 1
    with w show ?thesis by (auto simp: starts_ws_def)
  next
    case 2
    show ?thesis
    proof (cases us)
      case Nil
      with 2 w show ?thesis by (auto simp: starts_ws_def)
    next
      case (Cons u vs)
      with 2 have "c \<in> set w" by auto
      with w assms show ?thesis by (auto dest: ws_byteI)
    qed
  qed
next
  assume "starts_ws s"
  then show "starts_ws (s @ c # t)" by (rule starts_ws_prefix [rotated]) simp
qed

lemma ends_ws_append:
  assumes "\<not> ws_byte c"
  shows "ends_ws (s @ c # t) \<longleftrightarrow> ends_ws t"
proof
  assume "ends_ws (s @ c # t)"
  then obtain w where w: "w \<in> set white_space" "suffix w (s @ c # t)"
    by (auto simp: ends_ws_def)
  have "suffix w t"
  proof (rule ccontr)
    assume "\<not> suffix w t"
    with w(2) have "suffix (c # t) w \<or> suffix w (c # t)"
      by (metis suffix_same_cases suffixI)
    with \<open>\<not> suffix w t\<close> have "c \<in> set w"
      by (auto simp: suffix_Cons dest: set_mono_suffix)
    with w assms show False by (auto dest: ws_byteI)
  qed
  with w show "ends_ws t" by (auto simp: ends_ws_def)
next
  assume "ends_ws t"
  then obtain w where "w \<in> set white_space" "suffix w t"
    by (auto simp: ends_ws_def)
  then have "suffix w (s @ c # t)"
    by (auto simp: suffix_def intro: exI [of _ "s @ c # _"])
  with \<open>w \<in> set white_space\<close> show "ends_ws (s @ c # t)" by (auto simp: ends_ws_def)
qed

lemma trimmed_append:
  "\<not> ws_byte c \<Longrightarrow> trimmed (s @ c # t) \<longleftrightarrow> \<not> starts_ws s \<and> \<not> ends_ws t"
  by (simp add: trimmed_def starts_ws_append ends_ws_append)

lemma trimmed_no_ws:
  assumes "\<forall>c \<in> set s. \<not> ws_byte c"
  shows "trimmed s"
proof -
  have "\<not> prefix w s \<and> \<not> suffix w s" if "w \<in> set white_space" for w
  proof -
    from white_space_nonempty [OF that] obtain c cs where "w = c # cs" by (cases w) auto
    then have "ws_byte c" using that by (auto intro: ws_byteI)
    with assms \<open>w = c # cs\<close> show ?thesis
      by (auto dest: set_mono_prefix set_mono_suffix)
  qed
  then show ?thesis by (auto simp: trimmed_def starts_ws_def ends_ws_def)
qed

text \<open>What trimming removes consists of white space.\<close>

lemma strip_pre_removed: "\<exists>us. set us \<subseteq> set ws \<and> s = concat us @ strip_pre ws s"
proof (induction ws s rule: strip_pre.induct)
  case (1 ws s)
  show ?case
  proof (cases "find (\<lambda>w. w \<noteq> [] \<and> prefix w s) ws")
    case None
    then have "strip_pre ws s = s" by (subst strip_pre.simps) simp
    then show ?thesis by (intro exI [of _ "[]"]) simp
  next
    case (Some w)
    then have w: "w \<in> set ws" "s = w @ drop (length w) s"
      by (auto simp: find_Some_iff prefix_def)
    from 1 [OF Some] obtain us where
      "set us \<subseteq> set ws" "drop (length w) s = concat us @ strip_pre ws (drop (length w) s)"
      by blast
    moreover have "strip_pre ws s = strip_pre ws (drop (length w) s)"
      using Some by (subst strip_pre.simps) simp
    ultimately show ?thesis
      using w by (intro exI [of _ "w # us"]) simp
  qed
qed

lemma trim_start_removed: "\<exists>u. (\<forall>c \<in> set u. ws_byte c) \<and> s = u @ trim_start s"
proof -
  obtain us where "set us \<subseteq> set white_space" "s = concat us @ trim_start s"
    using strip_pre_removed unfolding trim_start_def by blast
  then show ?thesis by (intro exI [of _ "concat us"]) (auto dest: ws_byteI)
qed

lemma trim_end_removed: "\<exists>u. (\<forall>c \<in> set u. ws_byte c) \<and> s = trim_end s @ u"
proof -
  obtain us where us: "set us \<subseteq> set (map rev white_space)"
    "rev s = concat us @ strip_pre (map rev white_space) (rev s)"
    using strip_pre_removed by blast
  then have "s = trim_end s @ rev (concat us)"
    unfolding trim_end_def by (metis rev_append rev_rev_ident)
  moreover have "\<forall>c \<in> set (rev (concat us)). ws_byte c"
    using us(1) by (fastforce intro: ws_byteI)
  ultimately show ?thesis by blast
qed

lemma trim_eq_Nil: "trim s = [] \<Longrightarrow> c \<in> set s \<Longrightarrow> ws_byte c"
  using trim_start_removed [of s] trim_end_removed [of "trim_start s"]
  unfolding trim_def by (metis Un_iff append_Nil set_append)

lemma trimmed_last:
  assumes "trimmed s" and "[c] \<in> set white_space"
  shows "\<not> suffix [c] s"
  using assms by (auto simp: trimmed_def ends_ws_def)

lemma trim_end_matches_id:
  "\<forall>c \<in> set cs. \<not> suffix [c] s \<Longrightarrow> trim_end_matches cs s = s"
  by (cases s rule: rev_cases) (auto simp: trim_end_matches_def suffix_def)

lemma trim_end_matches_prefix: "prefix (trim_end_matches cs s) s"
  using suffix_dropWhile [of "\<lambda>c. c \<in> set cs" "rev s"]
  by (simp add: trim_end_matches_def suffix_to_prefix)


section \<open>Splitting and joining\<close>

text \<open>\<open>s.split(c).collect()\<close>: one piece more than there are separators.\<close>

fun split_on :: "char \<Rightarrow> string \<Rightarrow> string list" where
  "split_on c [] = [[]]"
| "split_on c (x # xs) =
     (if x = c then [] # split_on c xs
      else (case split_on c xs of [] \<Rightarrow> [[x]] | p # ps \<Rightarrow> (x # p) # ps))"

text \<open>\<open>s.split_once(c)\<close>: the text before and after the first separator.\<close>

fun split_once :: "char \<Rightarrow> string \<Rightarrow> (string \<times> string) option" where
  "split_once c [] = None"
| "split_once c (x # xs) =
     (if x = c then Some ([], xs)
      else map_option (\<lambda>(a, b). (x # a, b)) (split_once c xs))"

text \<open>\<open>parts.join(sep)\<close>.\<close>

fun join :: "string \<Rightarrow> string list \<Rightarrow> string" where
  "join sep [] = []"
| "join sep [p] = p"
| "join sep (p # q # ps) = p @ sep @ join sep (q # ps)"

lemma split_on_not_Nil [simp]: "split_on c s \<noteq> []"
  by (cases s) (auto split: list.splits)

lemma split_on_no_sep: "c \<notin> set s \<Longrightarrow> split_on c s = [s]"
  by (induction s) auto

lemma split_on_append: "c \<notin> set s \<Longrightarrow> split_on c (s @ c # t) = s # split_on c t"
  by (induction s) auto

lemma split_on_pieces: "p \<in> set (split_on c s) \<Longrightarrow> c \<notin> set p \<and> set p \<subseteq> set s"
proof (induction s arbitrary: p)
  case Nil
  then show ?case by simp
next
  case (Cons x xs)
  then show ?case
    by (cases "split_on c xs") (auto split: if_splits, blast+)
qed

lemma length_split_on: "length (split_on c s) = Suc (count_list s c)"
  by (induction s) (auto split: list.splits)

lemma length_split_on_append:
  "length (split_on c (s @ t)) + 1 = length (split_on c s) + length (split_on c t)"
  by (simp add: length_split_on)

lemma split_on_join:
  assumes "ps \<noteq> []" and "\<forall>p \<in> set ps. c \<notin> set p"
  shows "split_on c (join [c] ps) = ps"
  using assms by (induction "[c]" ps rule: join.induct) (auto simp: split_on_no_sep split_on_append)

lemma join_split_on: "join [c] (split_on c s) = s"
proof (induction s)
  case Nil
  then show ?case by simp
next
  case (Cons x xs)
  then show ?case
    by (cases "split_on c xs"; cases "tl (split_on c xs)") auto
qed

lemma split_once_None_iff: "split_once c s = None \<longleftrightarrow> c \<notin> set s"
  by (induction s) auto

lemma split_once_no_sep [simp]: "c \<notin> set s \<Longrightarrow> split_once c s = None"
  by (simp add: split_once_None_iff)

lemma split_once_append [simp]: "c \<notin> set s \<Longrightarrow> split_once c (s @ c # t) = Some (s, t)"
  by (induction s) auto

lemma split_once_SomeD: "split_once c s = Some (a, b) \<Longrightarrow> s = a @ c # b \<and> c \<notin> set a"
  by (induction s arbitrary: a) (auto split: if_splits)

lemma set_join: "set (join sep ps) \<subseteq> set sep \<union> (\<Union>p \<in> set ps. set p)"
  by (induction sep ps rule: join.induct) auto

lemma join_eq_Nil_iff: "sep \<noteq> [] \<Longrightarrow> join sep ps = [] \<longleftrightarrow> ps = [] \<or> ps = [[]]"
  by (induction sep ps rule: join.induct) auto

text \<open>
  \<open>s.lines()\<close>: the text between line feeds; one carriage return before the line feed goes
  with it, and an empty last line is not a line.
\<close>

definition chomp_cr :: "string \<Rightarrow> string" where
  "chomp_cr s = (if suffix [CR] s then butlast s else s)"

fun finish_lines :: "string list \<Rightarrow> string list" where
  "finish_lines [] = []"
| "finish_lines [p] = (if p = [] then [] else [p])"
| "finish_lines (p # q # ps) = chomp_cr p # finish_lines (q # ps)"

definition lines :: "string \<Rightarrow> string list" where
  "lines s = finish_lines (split_on LF s)"

lemma lines_single:
  assumes "LF \<notin> set s"
  shows "lines (s @ [LF]) = [chomp_cr s]"
  using assms by (simp add: lines_def split_on_append)

lemma lines_Cons:
  assumes "LF \<notin> set s"
  shows "lines (s @ LF # t) = chomp_cr s # lines t"
  using assms by (cases "split_on LF t") (simp_all add: lines_def split_on_append)

lemma lines_Nil [simp]: "lines [] = []"
  by (simp add: lines_def)

lemma chomp_cr_id: "\<not> suffix [CR] s \<Longrightarrow> chomp_cr s = s"
  by (simp add: chomp_cr_def)

section \<open>Searching and replacing\<close>

fun contains :: "string \<Rightarrow> string \<Rightarrow> bool" where
  "contains n [] = (n = [])"
| "contains n (x # xs) = (prefix n (x # xs) \<or> contains n xs)"

lemma contains_iff [str_simps]: "contains n h \<longleftrightarrow> (\<exists>u v. h = u @ n @ v)"
proof (induction h)
  case Nil
  then show ?case by auto
next
  case (Cons x xs)
  show ?case
  proof
    assume "contains n (x # xs)"
    then consider "prefix n (x # xs)" | "contains n xs" by auto
    then show "\<exists>u v. x # xs = u @ n @ v"
    proof cases
      case 1
      then show ?thesis by (auto simp: prefix_def intro: exI [of _ "[]"])
    next
      case 2
      with Cons obtain u v where "xs = u @ n @ v" by blast
      then show ?thesis by (intro exI [of _ "x # u"] exI [of _ v]) simp
    qed
  next
    assume "\<exists>u v. x # xs = u @ n @ v"
    then obtain u v where "x # xs = u @ n @ v" by blast
    then have "prefix n (x # xs) \<or> (\<exists>u v. xs = u @ n @ v)"
      by (cases u) (auto simp: prefix_def)
    then show "contains n (x # xs)"
      using Cons by simp
  qed
qed

text \<open>\<open>s.replace(from, to)\<close> for a non-empty \<open>from\<close>: left to right, without overlap.\<close>

function replace :: "string \<Rightarrow> string \<Rightarrow> string \<Rightarrow> string" where
  "replace p r [] = []"
| "replace p r (x # xs) =
     (if p \<noteq> [] \<and> prefix p (x # xs) then r @ replace p r (drop (length p) (x # xs))
      else x # replace p r xs)"
  by pat_completeness auto
termination
  by (relation "measure (\<lambda>(p, r, s). length s)") (auto simp: prefix_def)

lemma replace_char: "replace [c] r s = concat (map (\<lambda>x. if x = c then r else [x]) s)"
  by (induction "[c]" r s rule: replace.induct) auto

text \<open>\<open>s.split(sep)\<close> for a non-empty string separator.\<close>

function split_str :: "string \<Rightarrow> string \<Rightarrow> string list" where
  "split_str p [] = [[]]"
| "split_str p (x # xs) =
     (if p \<noteq> [] \<and> prefix p (x # xs) then [] # split_str p (drop (length p) (x # xs))
      else (case split_str p xs of [] \<Rightarrow> [[x]] | q # qs \<Rightarrow> (x # q) # qs))"
  by pat_completeness auto
termination
  by (relation "measure (\<lambda>(p, s). length s)") (auto simp: prefix_def)

lemma split_str_not_Nil [simp]: "split_str p s \<noteq> []"
  by (induction p s rule: split_str.induct) (auto split: list.splits)

section \<open>Characters\<close>

text \<open>The number of bytes that follow the first byte of an encoded character.\<close>

definition utf8_rest :: "char \<Rightarrow> nat" where
  "utf8_rest c = (let n = of_char c :: int in if n < 128 then 0 else if n < 224 then 1 else if n < 240 then 2 else 3)"

text \<open>The characters of a text, each with its bytes.\<close>

function chars :: "string \<Rightarrow> string list" where
  "chars [] = []"
| "chars (c # cs) = (c # take (utf8_rest c) cs) # chars (drop (utf8_rest c) cs)"
  by pat_completeness auto
termination
  by (relation "measure length") auto

definition whole_char :: "string \<Rightarrow> bool" where
  "whole_char c \<longleftrightarrow> c \<noteq> [] \<and> length (tl c) = utf8_rest (hd c)"

lemma concat_chars [simp]: "concat (chars s) = s"
  by (induction s rule: chars.induct) simp_all

lemma chars_append: "whole_char c \<Longrightarrow> chars (c @ s) = c # chars s"
  by (cases c) (simp_all add: whole_char_def)

lemma chars_concat: "list_all whole_char cs \<Longrightarrow> chars (concat cs) = cs"
  by (induction cs) (simp_all add: chars_append)

lemma whole_char_ascii: "(of_char c :: int) < 128 \<Longrightarrow> whole_char [c]"
  by (simp add: whole_char_def utf8_rest_def)

section \<open>Case and slicing\<close>

definition ascii_lower :: "char \<Rightarrow> char" where
  "ascii_lower c =
     (let n = of_char c :: nat in if 65 \<le> n \<and> n \<le> 90 then char_of (n + 32) else c)"

definition to_ascii_lowercase :: "string \<Rightarrow> string" where
  "to_ascii_lowercase s = map ascii_lower s"

lemma length_to_ascii_lowercase [simp]: "length (to_ascii_lowercase s) = length s"
  by (simp add: to_ascii_lowercase_def)

text \<open>
  \<open>is_char_boundary\<close> and \<open>truncate\<close>. Truncating inside a character panics, which is
  the result \<open>None\<close>.
\<close>

definition is_cont :: "char \<Rightarrow> bool" where
  "is_cont c \<longleftrightarrow> (let n = of_char c :: int in 128 \<le> n \<and> n < 192)"

definition is_char_boundary :: "string \<Rightarrow> nat \<Rightarrow> bool" where
  "is_char_boundary s i \<longleftrightarrow> i = 0 \<or> i = length s \<or> (i < length s \<and> \<not> is_cont (s ! i))"

definition truncate_str :: "nat \<Rightarrow> string \<Rightarrow> string option" where
  "truncate_str n s =
     (if n \<le> length s then if is_char_boundary s n then Some (take n s) else None else Some s)"

section \<open>Decimal integers\<close>

definition digit_char :: "int \<Rightarrow> char" where
  "digit_char d = char_of (48 + d)"

definition digit_val :: "char \<Rightarrow> int option" where
  "digit_val c = (let n = of_char c :: int in if 48 \<le> n \<and> n \<le> 57 then Some (n - 48) else None)"

text \<open>The digits of a number that is not negative.\<close>

function to_dec :: "int \<Rightarrow> string" where
  "to_dec n = (if n < 10 then [digit_char n] else to_dec (n div 10) @ [digit_char (n mod 10)])"
  by pat_completeness auto
termination
  by (relation "measure nat") auto

declare to_dec.simps [simp del]

fun from_dec :: "int \<Rightarrow> string \<Rightarrow> int option" where
  "from_dec acc [] = Some acc"
| "from_dec acc (c # cs) =
     (case digit_val c of None \<Rightarrow> None | Some d \<Rightarrow> from_dec (10 * acc + d) cs)"

definition i64_min :: int where "i64_min = - (2 ^ 63)"
definition i64_max :: int where "i64_max = 2 ^ 63 - 1"

definition is_i64 :: "int \<Rightarrow> bool" where
  "is_i64 n \<longleftrightarrow> i64_min \<le> n \<and> n \<le> i64_max"

text \<open>\<open>n.to_string()\<close> and \<open>s.parse::<i64>()\<close>: an optional sign, digits, in range.\<close>

definition i64_to_string :: "int \<Rightarrow> string" where
  "i64_to_string n = (if n < 0 then CHR ''-'' # to_dec (- n) else to_dec n)"

definition usize_to_string :: "nat \<Rightarrow> string" where
  "usize_to_string n = to_dec (int n)"

definition check_i64 :: "int \<Rightarrow> int option" where
  "check_i64 n = (if is_i64 n then Some n else None)"

definition parse_i64 :: "string \<Rightarrow> int option" where
  "parse_i64 s =
     (case s of
        [] \<Rightarrow> None
      | c # cs \<Rightarrow>
          if c = CHR ''-'' \<and> cs \<noteq> [] then Option.bind (from_dec 0 cs) (\<lambda>n. check_i64 (- n))
          else if c = CHR ''+'' \<and> cs \<noteq> [] then Option.bind (from_dec 0 cs) check_i64
          else Option.bind (from_dec 0 s) check_i64)"

lemma digit_val_digit_char [simp]:
  assumes "0 \<le> d" "d < 10"
  shows "digit_val (digit_char d) = Some d"
proof -
  have "(48 + d) mod 256 = 48 + d" using assms by (intro mod_pos_pos_trivial) auto
  with assms show ?thesis by (simp add: digit_val_def digit_char_def Let_def)
qed

lemma digit_char_not:
  assumes "0 \<le> d" "d < 10" and "digit_val c = None"
  shows "digit_char d \<noteq> c"
  using assms by (metis digit_val_digit_char option.distinct(1))

lemma digit_char_sign:
  assumes "0 \<le> d" "d < 10"
  shows "digit_char d \<noteq> CHR ''-''" "digit_char d \<noteq> CHR ''+''"
  by (rule digit_char_not [OF assms]; simp add: digit_val_def)+

lemma from_dec_append:
  "from_dec acc (s @ t) = Option.bind (from_dec acc s) (\<lambda>n. from_dec n t)"
  by (induction s arbitrary: acc) (auto split: option.splits)

lemma from_dec_to_dec: "0 \<le> n \<Longrightarrow> from_dec 0 (to_dec n) = Some n"
proof (induction n rule: to_dec.induct)
  case (1 n)
  show ?case
  proof (cases "n < 10")
    case True
    with 1 show ?thesis by (simp add: to_dec.simps [of n])
  next
    case False
    with 1 have "from_dec 0 (to_dec (n div 10)) = Some (n div 10)" by simp
    with False show ?thesis by (simp add: to_dec.simps [of n] from_dec_append)
  qed
qed

lemma to_dec_not_Nil [simp]: "to_dec n \<noteq> []"
  by (subst to_dec.simps) simp

lemma to_dec_digits: "0 \<le> n \<Longrightarrow> c \<in> set (to_dec n) \<Longrightarrow> \<exists>d. 0 \<le> d \<and> d < 10 \<and> c = digit_char d"
proof (induction n rule: to_dec.induct)
  case (1 n)
  show ?case
  proof (cases "n < 10")
    case True
    with 1 show ?thesis by (auto simp: to_dec.simps [of n])
  next
    case False
    with 1 have "c \<in> set (to_dec (n div 10)) \<or> c = digit_char (n mod 10)"
      by (auto simp: to_dec.simps [of n])
    moreover have "0 \<le> n div 10" using 1 False by simp
    ultimately show ?thesis using 1 False by (auto intro: exI [of _ "n mod 10"])
  qed
qed

text \<open>Printing an \<open>i64\<close> and parsing it gives it back.\<close>

lemma parse_i64_neg: "cs \<noteq> [] \<Longrightarrow> parse_i64 (CHR ''-'' # cs) = Option.bind (from_dec 0 cs) (\<lambda>n. check_i64 (- n))"
  by (simp add: parse_i64_def)

lemma parse_i64_digits:
  assumes "c \<noteq> CHR ''-''" "c \<noteq> CHR ''+''"
  shows "parse_i64 (c # cs) = Option.bind (from_dec 0 (c # cs)) check_i64"
  using assms unfolding parse_i64_def by (simp del: from_dec.simps)

lemma parse_i64_of_string: "parse_i64 (i64_to_string n) = check_i64 n"
proof (cases "n < 0")
  case True
  then have "from_dec 0 (to_dec (- n)) = Some (- n)" by (intro from_dec_to_dec) simp
  with True show ?thesis
    unfolding i64_to_string_def by (simp add: parse_i64_neg)
next
  case False
  obtain c cs where cs: "to_dec n = c # cs" by (cases "to_dec n") auto
  then obtain d where "0 \<le> d" "d < 10" "c = digit_char d"
    using to_dec_digits [of n c] False by auto
  then have "c \<noteq> CHR ''-''" "c \<noteq> CHR ''+''"
    by (simp_all add: digit_char_sign)
  then have "parse_i64 (to_dec n) = Option.bind (from_dec 0 (to_dec n)) check_i64"
    unfolding cs by (rule parse_i64_digits)
  also have "\<dots> = check_i64 n"
    using False by (simp add: from_dec_to_dec)
  finally show ?thesis using False by (simp add: i64_to_string_def)
qed

lemma parse_i64_to_string: "is_i64 n \<Longrightarrow> parse_i64 (i64_to_string n) = Some n"
  by (simp add: parse_i64_of_string check_i64_def)

lemma parse_i64_range: "parse_i64 s = Some n \<Longrightarrow> is_i64 n"
  by (auto simp: parse_i64_def check_i64_def bind_eq_Some_conv split: list.splits if_splits)

lemma i64_to_string_chars:
  "c \<in> set (i64_to_string n) \<Longrightarrow> c = CHR ''-'' \<or> (\<exists>d. 0 \<le> d \<and> d < 10 \<and> c = digit_char d)"
  by (auto simp: i64_to_string_def dest: to_dec_digits [rotated] split: if_splits)

lemma i64_to_string_not_Nil [simp]: "i64_to_string n \<noteq> []"
  by (simp add: i64_to_string_def)

text \<open>Numbers print as text without white space or separators.\<close>

definition plain_char :: "char \<Rightarrow> bool" where
  "plain_char c \<longleftrightarrow> \<not> ws_byte c \<and> c \<notin> set '';=#''"

lemma digit_val_ws: "ws_byte c \<Longrightarrow> digit_val c = None"
  by (auto simp: ws_byte_def white_space_def digit_val_def)

lemma digit_val_plain:
  assumes "digit_val c = Some d"
  shows "plain_char c"
proof -
  have "digit_val x = None" if "x \<in> set '';=#''" for x
    using that by (auto simp: digit_val_def)
  with digit_val_ws show ?thesis
    using assms unfolding plain_char_def by (metis option.distinct(1))
qed

lemma plain_minus: "plain_char CHR ''-''"
  by (auto simp: plain_char_def ws_byte_def white_space_def)

lemma i64_to_string_plain: "c \<in> set (i64_to_string n) \<Longrightarrow> plain_char c"
  using i64_to_string_chars plain_minus digit_val_plain digit_val_digit_char by metis

lemma plain_charD:
  "plain_char c \<Longrightarrow> \<not> ws_byte c" "plain_char c \<Longrightarrow> c \<noteq> TAB" "plain_char c \<Longrightarrow> c \<noteq> LF"
  "plain_char c \<Longrightarrow> c \<noteq> CR" "plain_char c \<Longrightarrow> c \<noteq> CHR '';''" "plain_char c \<Longrightarrow> c \<noteq> CHR ''=''"
  by (auto simp: plain_char_def ws_byte_def white_space_def)

end
