(* ===== verification/Severity.thy ===== *)
theory Severity
  imports Rust_Str
begin

text \<open>
  Severity levels (\<open>crates/hawk_core/src/severity.rs\<close>): the five levels, their
  case-insensitive parser with its synonyms, their printed names, and the rank that puts
  failures first when sorting ascending.
\<close>

datatype level = LOk | LInfo | LWarn | LFail | LUnknown

definition level_parse :: "string \<Rightarrow> level" where
  "level_parse s =
     (let t = to_ascii_lowercase (trim s) in
      if t = ''ok'' then LOk
      else if t = ''info'' then LInfo
      else if t = ''warn'' \<or> t = ''warning'' then LWarn
      else if t = ''fail'' \<or> t = ''error'' \<or> t = ''fatal'' then LFail
      else LUnknown)"

fun level_as_str :: "level \<Rightarrow> string" where
  "level_as_str LOk = ''ok''"
| "level_as_str LInfo = ''info''"
| "level_as_str LWarn = ''warn''"
| "level_as_str LFail = ''fail''"
| "level_as_str LUnknown = ''unknown''"

text \<open>\<open>LevelRank\<close> wraps a \<open>u8\<close>; the ranks are 0 to 4.\<close>

fun level_rank :: "level \<Rightarrow> nat" where
  "level_rank LFail = 0"
| "level_rank LWarn = 1"
| "level_rank LInfo = 2"
| "level_rank LOk = 3"
| "level_rank LUnknown = 4"

lemma ws_byte_ascii: "ws_byte c \<Longrightarrow> c \<notin> set ''abcdefghijklmnopqrstuvwxyz=;:#''"
  by (auto simp: ws_byte_def white_space_def)

lemma level_as_str_chars: "c \<in> set (level_as_str l) \<Longrightarrow> c \<in> set ''abcdefghijklmnopqrstuvwxyz''"
  by (cases l) auto

lemma trimmed_level_as_str [simp]: "trimmed (level_as_str l)"
  by (rule trimmed_no_ws) (use level_as_str_chars ws_byte_ascii in fastforce)

lemma level_as_str_clean [simp]:
  "TAB \<notin> set (level_as_str l)" "LF \<notin> set (level_as_str l)" "CR \<notin> set (level_as_str l)"
  by (cases l; simp)+

lemma level_parse_as_str: "level_parse (level_as_str l) = l"
proof -
  have "trim (level_as_str l) = level_as_str l" by simp
  then show ?thesis
    by (cases l) (simp_all add: level_parse_def Let_def to_ascii_lowercase_def ascii_lower_def)
qed

lemma level_rank_inj: "level_rank a = level_rank b \<longleftrightarrow> a = b"
  by (cases a; cases b) auto

lemma level_rank_bound: "level_rank l < 5"
  by (cases l) auto

text \<open>A level's name survives any surrounding white space and any letter case.\<close>

lemma ascii_lower_idem [simp]: "ascii_lower (ascii_lower c) = ascii_lower c"
  by (auto simp: ascii_lower_def Let_def)

lemma level_parse_case: "to_ascii_lowercase (trim s) = to_ascii_lowercase (trim t) \<Longrightarrow>
  level_parse s = level_parse t"
  by (simp add: level_parse_def)

end
