(* ===== verification/BTree_Map.thy ===== *)
theory BTree_Map
  imports Hawk_Prelude
begin

text \<open>
  \<open>std::collections::BTreeMap\<close>: an association list in strictly ascending key order,
  which is the sequence its iterators yield. The interface the program relies on is the
  locale \<open>ordered_map\<close>; its laws are discharged for the operations below and its
  lemmas on sequences of insertions are what the frame parser, the entity table and the
  transform variables use.
\<close>

type_synonym ('k, 'v) btree_map = "('k \<times> 'v) list"

fun bm_insert :: "'k::linorder \<Rightarrow> 'v \<Rightarrow> ('k, 'v) btree_map \<Rightarrow> ('k, 'v) btree_map" where
  "bm_insert k v [] = [(k, v)]"
| "bm_insert k v ((a, b) # m) =
     (case cmp k a of
        Less \<Rightarrow> (k, v) # (a, b) # m
      | Equal \<Rightarrow> (k, v) # m
      | Greater \<Rightarrow> (a, b) # bm_insert k v m)"

definition bm_get :: "('k, 'v) btree_map \<Rightarrow> 'k \<Rightarrow> 'v option" where
  "bm_get m k = map_of m k"

definition bm_values :: "('k, 'v) btree_map \<Rightarrow> 'v list" where
  "bm_values m = map snd m"

definition bm_wf :: "('k::linorder, 'v) btree_map \<Rightarrow> bool" where
  "bm_wf m \<longleftrightarrow> sorted_wrt (<) (map fst m)"

section \<open>The interface\<close>

locale ordered_map =
  fixes emp :: 'm and ins :: "'k::linorder \<Rightarrow> 'v \<Rightarrow> 'm \<Rightarrow> 'm" and get :: "'m \<Rightarrow> 'k \<Rightarrow> 'v option"
    and entries :: "'m \<Rightarrow> ('k \<times> 'v) list" and wf :: "'m \<Rightarrow> bool"
  assumes wf_emp: "wf emp"
    and wf_ins: "wf m \<Longrightarrow> wf (ins k v m)"
    and get_emp: "get emp k = None"
    and get_ins: "wf m \<Longrightarrow> get (ins k v m) k' = (if k' = k then Some v else get m k')"
    and entries_sorted: "wf m \<Longrightarrow> sorted_wrt (<) (map fst (entries m))"
    and entries_get: "wf m \<Longrightarrow> map_of (entries m) k = get m k"
begin

definition insert_all :: "('k \<times> 'v) list \<Rightarrow> 'm \<Rightarrow> 'm" where
  "insert_all kvs m = fold (\<lambda>(k, v). ins k v) kvs m"

lemma wf_insert_all: "wf m \<Longrightarrow> wf (insert_all kvs m)"
  by (induction kvs arbitrary: m) (auto simp: insert_all_def wf_ins split: prod.splits)

text \<open>After a sequence of insertions the last value inserted under a key is the one found.\<close>

lemma get_insert_all:
  "wf m \<Longrightarrow> get (insert_all kvs m) k =
     (case map_of (rev kvs) k of None \<Rightarrow> get m k | Some v \<Rightarrow> Some v)"
proof (induction kvs arbitrary: m)
  case Nil
  then show ?case by (simp add: insert_all_def)
next
  case (Cons kv kvs)
  obtain a b where kv: "kv = (a, b)" by force
  have "insert_all (kv # kvs) m = insert_all kvs (ins a b m)"
    by (simp add: insert_all_def kv)
  with Cons.IH [OF wf_ins [OF Cons.prems]] Cons.prems show ?case
    by (auto simp: kv map_add_def get_ins split: option.splits)
qed

lemma distinct_entries: "wf m \<Longrightarrow> distinct (map fst (entries m))"
  using entries_sorted by (auto simp: strict_sorted_iff)

lemma entries_mem: "wf m \<Longrightarrow> (k, v) \<in> set (entries m) \<longleftrightarrow> get m k = Some v"
  using map_of_eq_Some_iff [OF distinct_entries, of m k v] entries_get [of m k] by simp

text \<open>Maps with the same lookups iterate in the same way.\<close>

lemma entries_eqI:
  assumes "wf m" "wf n" "\<And>k. get m k = get n k"
  shows "entries m = entries n"
proof (rule antisym_sorted_wrt_unique)
  show "sorted_wrt (\<lambda>a b. fst a < fst b) (entries m)" "sorted_wrt (\<lambda>a b. fst a < fst b) (entries n)"
    using assms entries_sorted by (auto simp: sorted_wrt_map)
  have "set (entries m) = set (entries n)"
    using assms entries_mem by auto
  moreover have "distinct (entries m)" "distinct (entries n)"
    using assms distinct_entries by (auto simp: distinct_map)
  ultimately show "mset (entries m) = mset (entries n)"
    by (simp add: set_eq_iff_mset_eq_distinct)
qed auto

lemma length_entries_ins:
  assumes "wf m"
  shows "length (entries (ins k v m)) =
    (if get m k = None then Suc (length (entries m)) else length (entries m))"
proof -
  have dom: "set (map fst (entries m)) = {k. get m k \<noteq> None}" if "wf m" for m
  proof -
    have "k \<in> set (map fst (entries m)) \<longleftrightarrow> get m k \<noteq> None" for k
      using map_of_eq_None_iff [of "entries m" k] entries_get [OF that, of k] by simp
    then show ?thesis by blast
  qed
  have len: "length (entries m) = card {k. get m k \<noteq> None}" if "wf m" for m
    using distinct_card [OF distinct_entries [OF that]] dom [OF that] by simp
  have fin: "finite {k. get m k \<noteq> None}"
    using dom [OF assms] by (metis List.finite_set)
  have "{x. get (ins k v m) x \<noteq> None} = insert k {x. get m x \<noteq> None}"
    using assms by (auto simp: get_ins)
  with len [OF wf_ins [OF assms]] len [OF assms] fin show ?thesis
    by (auto simp: card_insert_if)
qed

end

text \<open>Where a map is its own list of entries, equal lookups mean equal maps.\<close>

locale canonical_map = ordered_map +
  assumes entries_inj: "entries m = entries n \<Longrightarrow> m = n"
begin

lemma map_eqI: "wf m \<Longrightarrow> wf n \<Longrightarrow> (\<And>k. get m k = get n k) \<Longrightarrow> m = n"
  by (rule entries_inj) (rule entries_eqI)

text \<open>Rebuilding a map from its own entries gives it back.\<close>

lemma rebuild: "wf m \<Longrightarrow> insert_all (entries m) emp = m"
proof (rule map_eqI)
  fix k assume "wf m"
  have "map_of (rev (entries m)) k = map_of (entries m) k"
    using distinct_entries [OF \<open>wf m\<close>]
    by (intro fun_cong [OF iffD2 [OF map_of_inject_set]]) (simp_all add: rev_map [symmetric])
  with \<open>wf m\<close> show "get (insert_all (entries m) emp) k = get m k"
    by (simp add: get_insert_all wf_emp get_emp entries_get split: option.splits)
qed (auto simp: wf_insert_all wf_emp)

end

section \<open>The operations satisfy the interface\<close>

lemma bm_insert_keys: "set (map fst (bm_insert k v m)) = insert k (set (map fst m))"
  by (induction k v m rule: bm_insert.induct) (auto split: if_splits)

lemma bm_wf_insert: "bm_wf m \<Longrightarrow> bm_wf (bm_insert k v m)"
proof (induction k v m rule: bm_insert.induct)
  case (1 k v)
  then show ?case by (simp add: bm_wf_def)
next
  case (2 k v a b m)
  then have m: "bm_wf m" "\<forall>x \<in> set (map fst m). a < x"
    by (auto simp: bm_wf_def)
  show ?case
  proof (cases "a < k")
    case True
    with 2 m have "bm_wf (bm_insert k v m)" by simp
    moreover have "\<forall>x \<in> set (map fst (bm_insert k v m)). a < x"
      using True m unfolding bm_insert_keys by auto
    ultimately show ?thesis using True by (auto simp: bm_wf_def)
  next
    case False
    with m show ?thesis by (auto simp: bm_wf_def)
  qed
qed

lemma map_of_notin: "bm_wf ((a, b) # m) \<Longrightarrow> k < a \<Longrightarrow> map_of m k = None"
  by (auto simp: bm_wf_def map_of_eq_None_iff)

lemma bm_get_insert:
  "bm_get (bm_insert k v m) k' = (if k' = k then Some v else bm_get m k')"
  by (induction k v m rule: bm_insert.induct) (auto simp: bm_get_def split: if_splits)

interpretation bm: canonical_map "[]" bm_insert bm_get "\<lambda>m. m" bm_wf
  by unfold_locales (simp_all add: bm_get_insert bm_wf_insert, simp_all add: bm_get_def bm_wf_def)

lemma bm_wf_Nil [simp]: "bm_wf []"
  by (simp add: bm_wf_def)

lemma bm_get_Nil [simp]: "bm_get [] k = None"
  by (simp add: bm_get_def)

declare bm_get_insert [simp] bm_wf_insert [simp, intro]

lemma mem_insert_all:
  "(k, v) \<in> set (bm.insert_all kvs []) \<longleftrightarrow> map_of (rev kvs) k = Some v"
  using bm.entries_mem [OF bm.wf_insert_all [OF bm_wf_Nil], of k v kvs]
  by (simp add: bm.get_insert_all split: option.splits)

lemma set_bm_values_insert: "set (bm_values (bm_insert k v m)) \<subseteq> insert v (set (bm_values m))"
proof (induction k v m rule: bm_insert.induct)
  case (2 k v a b m)
  then show ?case by (cases "a < k") (auto simp: bm_values_def)
qed (simp add: bm_values_def)

lemma length_bm_insert:
  "bm_wf m \<Longrightarrow> length (bm_insert k v m) = (if bm_get m k = None then Suc (length m) else length m)"
  by (rule bm.length_entries_ins)

end
