(* ===== verification/Time_Api.thy ===== *)
theory Time_Api
  imports Rust_Str "HOL-Library.Signed_Division"
begin

text \<open>
  The \<open>time\<close> crate is not part of the repository, so it is a parameter of the model: a
  record of the operations the program calls on \<open>OffsetDateTime\<close>. Subtraction with
  \<open>whole_seconds\<close> and the ordering are those of the instants, which
  \<open>unix_timestamp_nanos\<close> gives. \<open>rfc3339_ok\<close> states what its documentation
  promises of the RFC 3339 format, and \<open>dec_time\<close> is an instance that keeps the promise.
\<close>

record 't time_api =
  parse_rfc3339 :: "string \<Rightarrow> 't option"
  format_rfc3339 :: "'t \<Rightarrow> string option"
  unix_nanos :: "'t \<Rightarrow> int"

text \<open>\<open>(now - past).whole_seconds()\<close>: the difference truncated towards zero.\<close>

definition whole_seconds :: "'t time_api \<Rightarrow> 't \<Rightarrow> 't \<Rightarrow> int" where
  "whole_seconds T now past = (unix_nanos T now - unix_nanos T past) sdiv 1000000000"

text \<open>\<open>t.format(&Rfc3339).unwrap_or_default()\<close>.\<close>

definition format_or_default :: "'t time_api \<Rightarrow> 't \<Rightarrow> string" where
  "format_or_default T t = (case format_rfc3339 T t of None \<Rightarrow> [] | Some s \<Rightarrow> s)"

definition rfc3339_chars :: string where
  "rfc3339_chars = ''0123456789-+:.TZ''"

definition rfc3339_ok :: "'t time_api \<Rightarrow> bool" where
  "rfc3339_ok T \<longleftrightarrow>
     (\<forall>t s. format_rfc3339 T t = Some s \<longrightarrow>
        parse_rfc3339 T s = Some t \<and> s \<noteq> [] \<and> set s \<subseteq> set rfc3339_chars)"

lemma rfc3339_chars_clean:
  "c \<in> set rfc3339_chars \<Longrightarrow> \<not> ws_byte c \<and> c \<noteq> TAB \<and> c \<noteq> LF \<and> c \<noteq> CR \<and> c \<noteq> CHR ''#''"
  by (auto simp: rfc3339_chars_def ws_byte_def white_space_def)

lemma sdiv_nat_mono:
  assumes "(a::int) \<le> b" and "0 < d"
  shows "a sdiv d \<le> b sdiv d"
proof -
  consider "0 \<le> a" | "a < 0" "0 \<le> b" | "b < 0" using assms by linarith
  then show ?thesis
  proof cases
    case 1
    with assms show ?thesis
      by (auto simp: signed_divide_int_def sgn_if zdiv_mono1 pos_imp_zdiv_nonneg_iff)
  next
    case 2
    with assms have "0 \<le> (- a) div d" "0 \<le> b div d"
      by (simp_all add: pos_imp_zdiv_nonneg_iff)
    with 2 assms show ?thesis
      by (auto simp: signed_divide_int_def sgn_if)
  next
    case 3
    with assms have "(- b) div d \<le> (- a) div d" by (simp add: zdiv_mono1)
    with 3 assms show ?thesis by (auto simp: signed_divide_int_def sgn_if)
  qed
qed

lemma whole_seconds_mono:
  "unix_nanos T now \<le> unix_nanos T later \<Longrightarrow>
   whole_seconds T now past \<le> whole_seconds T later past"
  by (simp add: whole_seconds_def sdiv_nat_mono)

lemma format_clean:
  assumes "rfc3339_ok T"
  shows "TAB \<notin> set (format_or_default T t)" "LF \<notin> set (format_or_default T t)"
    "CR \<notin> set (format_or_default T t)" "trimmed (format_or_default T t)"
proof -
  have *: "\<forall>c \<in> set (format_or_default T t). c \<in> set rfc3339_chars"
    using assms by (cases "format_rfc3339 T t") (auto simp: format_or_default_def rfc3339_ok_def)
  with rfc3339_chars_clean show "TAB \<notin> set (format_or_default T t)"
    "LF \<notin> set (format_or_default T t)" "CR \<notin> set (format_or_default T t)"
    by blast+
  from * rfc3339_chars_clean show "trimmed (format_or_default T t)"
    by (intro trimmed_no_ws) blast
qed

section \<open>An instance: decimal timestamps\<close>

definition dec_time :: "int time_api" where
  "dec_time =
     \<lparr>parse_rfc3339 = parse_i64,
      format_rfc3339 = (\<lambda>t. if is_i64 t then Some (i64_to_string t) else None),
      unix_nanos = (\<lambda>t. t * 1000000000)\<rparr>"

lemma digit_char_mem:
  assumes "0 \<le> d" "d < 10"
  shows "digit_char d \<in> set rfc3339_chars"
proof -
  from assms have "d = 0 \<or> d = 1 \<or> d = 2 \<or> d = 3 \<or> d = 4 \<or> d = 5 \<or> d = 6 \<or> d = 7 \<or> d = 8 \<or> d = 9"
    by presburger
  then show ?thesis
    by (elim disjE) (simp_all add: digit_char_def rfc3339_chars_def char_of_def bit_0)
qed

lemma i64_to_string_rfc3339: "set (i64_to_string n) \<subseteq> set rfc3339_chars"
proof
  fix c assume "c \<in> set (i64_to_string n)"
  then show "c \<in> set rfc3339_chars"
    using digit_char_mem by (auto dest!: i64_to_string_chars simp: rfc3339_chars_def)
qed

lemma dec_time_ok: "rfc3339_ok dec_time"
  using i64_to_string_rfc3339
  by (auto simp: rfc3339_ok_def dec_time_def parse_i64_to_string split: if_splits)

end
