(* ===== verification/Hawkframe.thy ===== *)
theory Hawkframe
  imports Severity BTree_Map Time_Api
begin

text \<open>
  The HawkFrame line protocol (\<open>crates/hawk_core/src/hawkframe.rs\<close>): the frame record,
  the TSV line parser with its three errors, the key-value bag and its printer, the compact
  line of the event tail and the full TSV line. The lemmas show what a parsed frame looks
  like, that a well-formed frame survives printing and parsing, and where it does not.
\<close>

type_synonym kv_bag = "(string, string) btree_map"

record 't hawk_frame =
  hf_ts :: "'t option"
  hf_kind :: string
  hf_scope :: string
  hf_id :: string
  hf_level :: level
  hf_msg :: string
  hf_kv :: kv_bag

datatype parse_error = Empty | TooFewColumns nat | BadTimestamp string

section \<open>The key-value bag\<close>

definition insert_kv_part :: "string \<Rightarrow> kv_bag \<Rightarrow> kv_bag" where
  "insert_kv_part raw out =
     (let part = trim raw in
      if part = [] then out
      else (case split_once CHR ''='' part of
              Some (k, v) \<Rightarrow> bm_insert (trim k) (trim v) out
            | None \<Rightarrow> bm_insert part ''true'' out))"

definition parse_kv_bag :: "string \<Rightarrow> kv_bag" where
  "parse_kv_bag s =
     (if trim s = [] then [] else fold insert_kv_part (split_on CHR '';'' s) [])"

definition kv_entry_str :: "string \<times> string \<Rightarrow> string" where
  "kv_entry_str kv =
     (case kv of (k, v) \<Rightarrow> if v = ''true'' then k else k @ ''='' @ v)"

definition serialize_kv_bag :: "kv_bag \<Rightarrow> string" where
  "serialize_kv_bag kv = (if kv = [] then [] else join '';'' (map kv_entry_str kv))"

section \<open>Lines\<close>

definition parse_ts_column :: "'t time_api \<Rightarrow> string \<Rightarrow> parse_error + 't option" where
  "parse_ts_column T raw_ts =
     (if raw_ts = [] then Ok None
      else (case parse_rfc3339 T raw_ts of
              Some v \<Rightarrow> Ok (Some v)
            | None \<Rightarrow> Err (BadTimestamp raw_ts)))"

definition parse_tsv_line :: "'t time_api \<Rightarrow> string \<Rightarrow> parse_error + 't hawk_frame option" where
  "parse_tsv_line T raw =
     (let line = trim_end_matches [LF, CR] raw in
      if trim line = [] then Ok None
      else if prefix ''#'' (trim_start line) then Ok None
      else
        let cols = split_on TAB line in
        if length cols < 7 then Err (TooFewColumns (length cols))
        else
          and_then (parse_ts_column T (trim (cols ! 0))) (\<lambda>ts.
            Ok (Some
              \<lparr>hf_ts = ts,
               hf_kind = trim (cols ! 1),
               hf_scope = trim (cols ! 2),
               hf_id = trim (cols ! 3),
               hf_level = level_parse (cols ! 4),
               hf_msg = trim (cols ! 5),
               hf_kv = parse_kv_bag (trim (cols ! 6))\<rparr>)))"

definition to_compact_line :: "'t time_api \<Rightarrow> 't hawk_frame \<Rightarrow> string" where
  "to_compact_line T f =
     (let ts = (case hf_ts f of None \<Rightarrow> [] | Some t \<Rightarrow> format_or_default T t) in
      join [TAB] [ts, hf_kind f, hf_scope f, hf_id f, level_as_str (hf_level f), hf_msg f])"

definition to_tsv_line :: "'t time_api \<Rightarrow> 't hawk_frame \<Rightarrow> 't \<Rightarrow> string" where
  "to_tsv_line T f now =
     (let ts = format_or_default T (case hf_ts f of None \<Rightarrow> now | Some t \<Rightarrow> t);
          kv = serialize_kv_bag (hf_kv f)
      in join [TAB] [ts, hf_kind f, hf_scope f, hf_id f, level_as_str (hf_level f), hf_msg f, kv])"

section \<open>Well-formed bags and frames\<close>

definition clean_field :: "string \<Rightarrow> bool" where
  "clean_field s \<longleftrightarrow> trimmed s \<and> TAB \<notin> set s"

definition clean_entry :: "string \<times> string \<Rightarrow> bool" where
  "clean_entry e \<longleftrightarrow>
     clean_field (fst e) \<and> clean_field (snd e)
     \<and> CHR '';'' \<notin> set (fst e) \<and> CHR '';'' \<notin> set (snd e) \<and> CHR ''='' \<notin> set (fst e)"

definition clean_kv :: "kv_bag \<Rightarrow> bool" where
  "clean_kv m \<longleftrightarrow> bm_wf m \<and> (\<forall>e \<in> set m. clean_entry e)"

text \<open>The one entry the printer loses: an empty key bound to \<open>true\<close> prints as nothing.\<close>

definition no_ghost_flag :: "kv_bag \<Rightarrow> bool" where
  "no_ghost_flag m \<longleftrightarrow> ([], ''true'') \<notin> set m"

definition clean_frame :: "'t hawk_frame \<Rightarrow> bool" where
  "clean_frame f \<longleftrightarrow>
     clean_field (hf_kind f) \<and> clean_field (hf_scope f) \<and> clean_field (hf_id f)
     \<and> clean_field (hf_msg f) \<and> clean_kv (hf_kv f)"

definition stamp :: "'t hawk_frame \<Rightarrow> 't \<Rightarrow> 't" where
  "stamp f now = (case hf_ts f of None \<Rightarrow> now | Some t \<Rightarrow> t)"

section \<open>The bag: what is parsed, and the round trip\<close>

definition part_entry :: "string \<Rightarrow> (string \<times> string) option" where
  "part_entry raw =
     (let part = trim raw in
      if part = [] then None
      else (case split_once CHR ''='' part of
              Some (k, v) \<Rightarrow> Some (trim k, trim v)
            | None \<Rightarrow> Some (part, ''true'')))"

lemma insert_kv_part_entry:
  "insert_kv_part raw out =
     (case part_entry raw of None \<Rightarrow> out | Some (k, v) \<Rightarrow> bm_insert k v out)"
  by (auto simp: insert_kv_part_def part_entry_def Let_def split: option.splits)

lemma fold_insert_kv_part:
  "fold insert_kv_part ps m = bm.insert_all (List.map_filter part_entry ps) m"
proof (induction ps arbitrary: m)
  case Nil
  then show ?case by (simp add: bm.insert_all_def map_filter_def)
next
  case (Cons p ps)
  then show ?case
    by (cases "part_entry p")
      (auto simp: insert_kv_part_entry bm.insert_all_def map_filter_def)
qed

lemma bm_wf_parse_kv_bag: "bm_wf (parse_kv_bag s)"
  by (simp add: parse_kv_bag_def fold_insert_kv_part bm.wf_insert_all)

lemma clean_fieldI: "set s \<subseteq> set t \<Longrightarrow> TAB \<notin> set t \<Longrightarrow> trimmed s \<Longrightarrow> clean_field s"
  by (auto simp: clean_field_def)

lemma clean_field_trim: "TAB \<notin> set s \<Longrightarrow> clean_field (trim s)"
  using set_trim by (auto intro: clean_fieldI)

lemma clean_field_true [simp]: "clean_field ''true''"
proof -
  have "trimmed ''true''"
    by (rule trimmed_no_ws) (auto dest: ws_byte_ascii)
  then show ?thesis by (simp add: clean_field_def)
qed

lemma clean_part_entry:
  assumes "part_entry raw = Some e" and "TAB \<notin> set raw" and "CHR '';'' \<notin> set raw"
  shows "clean_entry e"
proof -
  let ?p = "trim raw"
  have p: "TAB \<notin> set ?p" "CHR '';'' \<notin> set ?p" using assms set_trim by blast+
  show ?thesis
  proof (cases "split_once CHR ''='' ?p")
    case None
    with assms(1) have "e = (?p, ''true'')"
      by (auto simp: part_entry_def Let_def split: if_splits)
    with None p show ?thesis
      by (simp add: clean_entry_def split_once_None_iff) (simp add: clean_field_def)
  next
    case (Some kv)
    obtain k v where kv: "kv = (k, v)" by force
    with Some have sp: "?p = k @ CHR ''='' # v" "CHR ''='' \<notin> set k"
      by (auto dest: split_once_SomeD)
    have e: "e = (trim k, trim v)"
      using assms(1) Some kv by (auto simp: part_entry_def Let_def split: if_splits)
    have k: "TAB \<notin> set k" "CHR '';'' \<notin> set k" and v: "TAB \<notin> set v" "CHR '';'' \<notin> set v"
      using p sp by auto
    then show ?thesis
      using sp(2) set_trim [of k] set_trim [of v] clean_field_trim
      by (auto simp: clean_entry_def e)
  qed
qed

lemma clean_parse_kv_bag:
  assumes "TAB \<notin> set s"
  shows "clean_kv (parse_kv_bag s)"
proof -
  let ?es = "List.map_filter part_entry (split_on CHR '';'' s)"
  have "clean_entry e" if "e \<in> set (parse_kv_bag s)" for e
  proof -
    obtain k v where e: "e = (k, v)" by force
    have "parse_kv_bag s = [] \<or> parse_kv_bag s = bm.insert_all ?es []"
      by (simp add: parse_kv_bag_def fold_insert_kv_part)
    with that have "(k, v) \<in> set (bm.insert_all ?es [])" by (auto simp: e)
    then have "e \<in> set ?es" using e by (auto simp: mem_insert_all dest: map_of_SomeD)
    then obtain p where "p \<in> set (split_on CHR '';'' s)" "part_entry p = Some e"
      by (auto simp: map_filter_def)
    with assms show ?thesis
      using clean_part_entry [of p e] split_on_pieces [of p "CHR '';''" s] by auto
  qed
  then show ?thesis by (simp add: clean_kv_def bm_wf_parse_kv_bag)
qed

lemma not_ws_punct [simp]: "\<not> ws_byte CHR '';''" "\<not> ws_byte CHR ''=''"
  by (auto dest: ws_byte_ascii)

lemma part_entry_entry_str:
  assumes "clean_entry e" and "e \<noteq> ([], ''true'')"
  shows "part_entry (kv_entry_str e) = Some e"
proof -
  obtain k v where e: "e = (k, v)" by force
  show ?thesis
  proof (cases "v = ''true''")
    case True
    with assms e show ?thesis
      by (auto simp: part_entry_def kv_entry_str_def clean_entry_def clean_field_def Let_def)
  next
    case False
    have "trimmed (k @ CHR ''='' # v)"
      using assms e
      by (simp add: clean_entry_def clean_field_def trimmed_def starts_ws_append ends_ws_append)
    with assms e False show ?thesis
      by (auto simp: part_entry_def kv_entry_str_def clean_entry_def clean_field_def Let_def)
  qed
qed

lemma trimmed_entry_str:
  assumes "clean_entry e"
  shows "trimmed (kv_entry_str e)"
  using assms
  by (cases e) (auto simp: kv_entry_str_def clean_entry_def clean_field_def trimmed_def
      starts_ws_append ends_ws_append)

lemma trimmed_join:
  assumes "\<not> ws_byte c" and "\<forall>p \<in> set ps. trimmed p"
  shows "trimmed (join [c] ps)"
proof -
  have "ps \<noteq> [] \<Longrightarrow> \<not> starts_ws (join [c] ps) \<and> \<not> ends_ws (join [c] ps)"
    using assms(2)
    by (induction "[c]" ps rule: join.induct)
      (auto simp: starts_ws_append [OF assms(1)] ends_ws_append [OF assms(1)] trimmed_def)
  then show ?thesis by (cases ps) (auto simp: trimmed_def)
qed

lemma trimmed_serialize_kv_bag:
  "clean_kv m \<Longrightarrow> trimmed (serialize_kv_bag m)"
  by (auto simp: serialize_kv_bag_def clean_kv_def intro!: trimmed_join trimmed_entry_str)

lemma entry_str_set: "set (kv_entry_str e) \<subseteq> set (fst e) \<union> {CHR ''=''} \<union> set (snd e)"
  by (auto simp: kv_entry_str_def split: prod.splits if_splits)

lemma TAB_serialize_kv_bag:
  assumes "clean_kv m"
  shows "TAB \<notin> set (serialize_kv_bag m)"
proof -
  have "\<forall>e \<in> set m. TAB \<notin> set (kv_entry_str e)"
    using assms entry_str_set
    by (fastforce simp: clean_kv_def clean_entry_def clean_field_def)
  then show ?thesis
    using set_join [of "'';''" "map kv_entry_str m"] by (auto simp: serialize_kv_bag_def)
qed

lemma map_filter_part_entry:
  "\<forall>e \<in> set m. clean_entry e \<and> e \<noteq> ([], ''true'') \<Longrightarrow>
   List.map_filter part_entry (map kv_entry_str m) = m"
  by (induction m) (auto simp: map_filter_def part_entry_entry_str)

lemma parse_serialize_kv_bag:
  assumes "clean_kv m" and "no_ghost_flag m"
  shows "parse_kv_bag (serialize_kv_bag m) = m"
proof (cases "m = []")
  case True
  then show ?thesis by (simp add: serialize_kv_bag_def parse_kv_bag_def)
next
  case False
  let ?s = "join '';'' (map kv_entry_str m)"
  have e: "\<forall>e \<in> set m. clean_entry e \<and> e \<noteq> ([], ''true'')"
    using assms by (auto simp: clean_kv_def no_ghost_flag_def)
  have "CHR '';'' \<notin> set (kv_entry_str e)" if "e \<in> set m" for e
    using entry_str_set [of e] e that by (auto simp: clean_entry_def)
  then have sp: "split_on CHR '';'' ?s = map kv_entry_str m"
    using False by (intro split_on_join) auto
  have "trim ?s = ?s"
    using trimmed_serialize_kv_bag [OF assms(1)] False by (simp add: serialize_kv_bag_def)
  moreover have "?s \<noteq> []"
  proof
    assume "?s = []"
    with False have "map kv_entry_str m = [[]]" by (auto simp: join_eq_Nil_iff)
    then obtain e0 where "m = [e0]" "kv_entry_str e0 = []" by (cases m) auto
    with e show False by (cases e0) (auto simp: kv_entry_str_def split: if_splits)
  qed
  ultimately have "parse_kv_bag ?s = bm.insert_all m []"
    by (simp add: parse_kv_bag_def fold_insert_kv_part sp map_filter_part_entry [OF e])
  also have "\<dots> = m" using assms by (intro bm.rebuild) (simp add: clean_kv_def)
  finally show ?thesis using False by (simp add: serialize_kv_bag_def)
qed


section \<open>Lines: what is parsed\<close>

lemma trim_end_matches_set: "set (trim_end_matches cs s) \<subseteq> set s"
  using trim_end_matches_prefix by (rule set_mono_prefix)

text \<open>The columns of a data line, and the frame they make.\<close>

definition columns :: "string \<Rightarrow> string list" where
  "columns raw = split_on TAB (trim_end_matches [LF, CR] raw)"

definition ignorable :: "string \<Rightarrow> bool" where
  "ignorable raw \<longleftrightarrow>
     (let line = trim_end_matches [LF, CR] raw in trim line = [] \<or> prefix ''#'' (trim_start line))"

definition frame_of :: "'t option \<Rightarrow> string list \<Rightarrow> 't hawk_frame" where
  "frame_of ts cols =
     \<lparr>hf_ts = ts, hf_kind = trim (cols ! 1), hf_scope = trim (cols ! 2), hf_id = trim (cols ! 3),
      hf_level = level_parse (cols ! 4), hf_msg = trim (cols ! 5),
      hf_kv = parse_kv_bag (trim (cols ! 6))\<rparr>"

lemma parse_tsv_line_cases:
  "parse_tsv_line T raw =
     (if ignorable raw then Ok None
      else if length (columns raw) < 7 then Err (TooFewColumns (length (columns raw)))
      else map_sum id (\<lambda>ts. Some (frame_of ts (columns raw)))
             (parse_ts_column T (trim (columns raw ! 0))))"
  by (cases "parse_ts_column T (trim (columns raw ! 0))")
    (auto simp: parse_tsv_line_def ignorable_def columns_def frame_of_def Let_def)

lemma parse_tsv_line_SomeD:
  assumes "parse_tsv_line T raw = Ok (Some f)"
  shows "\<not> ignorable raw" "7 \<le> length (columns raw)"
    "\<exists>ts. parse_ts_column T (trim (columns raw ! 0)) = Ok ts \<and> f = frame_of ts (columns raw)"
  using assms
  by (cases "parse_ts_column T (trim (columns raw ! 0))";
      auto simp: parse_tsv_line_cases split: if_splits)+

lemma clean_frame_of:
  assumes "7 \<le> length cols" and "\<forall>c \<in> set cols. TAB \<notin> set c"
  shows "clean_frame (frame_of ts cols)"
proof -
  have "TAB \<notin> set (cols ! i)" if "i < 7" for i
    using assms that by (meson nth_mem order_less_le_trans)
  moreover from this [of 6] have "TAB \<notin> set (trim (cols ! 6))"
    using set_trim by auto
  ultimately show ?thesis
    by (simp add: clean_frame_def frame_of_def clean_field_trim clean_parse_kv_bag)
qed

lemma clean_parsed_frame:
  assumes "parse_tsv_line T raw = Ok (Some f)"
  shows "clean_frame f"
proof -
  from parse_tsv_line_SomeD [OF assms] obtain ts where
    f: "f = frame_of ts (columns raw)" and n: "7 \<le> length (columns raw)"
    by blast
  have "\<forall>c \<in> set (columns raw). TAB \<notin> set c"
    by (auto simp: columns_def dest: split_on_pieces)
  with n show ?thesis unfolding f by (rule clean_frame_of)
qed

section \<open>Lines: the round trip\<close>

definition tsv_columns :: "'t time_api \<Rightarrow> 't hawk_frame \<Rightarrow> 't \<Rightarrow> string list" where
  "tsv_columns T f now =
     [format_or_default T (stamp f now), hf_kind f, hf_scope f, hf_id f,
      level_as_str (hf_level f), hf_msg f, serialize_kv_bag (hf_kv f)]"

lemma to_tsv_line_join: "to_tsv_line T f now = join [TAB] (tsv_columns T f now)"
  by (simp add: to_tsv_line_def tsv_columns_def stamp_def Let_def)

lemma tsv_columns_TAB:
  assumes "rfc3339_ok T" and "clean_frame f" and "c \<in> set (tsv_columns T f now)"
  shows "TAB \<notin> set c"
  using assms format_clean(1) [of T] TAB_serialize_kv_bag [of "hf_kv f"]
  by (auto simp: tsv_columns_def clean_frame_def clean_field_def)

lemma split_to_tsv_line:
  assumes "rfc3339_ok T" and "clean_frame f"
  shows "split_on TAB (to_tsv_line T f now) = tsv_columns T f now"
  unfolding to_tsv_line_join
proof (rule split_on_join)
  show "\<forall>c \<in> set (tsv_columns T f now). TAB \<notin> set c"
    using tsv_columns_TAB [OF assms] by blast
qed (simp add: tsv_columns_def)

lemma white_space_newlines: "[LF] \<in> set white_space" "[CR] \<in> set white_space"
  by (simp_all add: white_space_def)

lemma suffix_to_tsv_line:
  assumes "clean_frame f" and "c = LF \<or> c = CR"
  shows "\<not> suffix [c] (to_tsv_line T f now)"
proof -
  let ?kv = "serialize_kv_bag (hf_kv f)"
  have kv: "\<not> suffix [c] ?kv"
    using assms trimmed_serialize_kv_bag [of "hf_kv f"] white_space_newlines
    by (auto simp: clean_frame_def dest: trimmed_last)
  have "to_tsv_line T f now = join [TAB] (butlast (tsv_columns T f now)) @ TAB # ?kv"
    by (simp add: to_tsv_line_join tsv_columns_def)
  moreover have "\<not> suffix [c] (u @ TAB # ?kv)" for u
    using kv assms(2) by (cases ?kv rule: rev_cases) (auto simp: suffix_def)
  ultimately show ?thesis by metis
qed

lemma trim_end_matches_tsv:
  assumes "clean_frame f"
  shows "trim_end_matches [LF, CR] (to_tsv_line T f now) = to_tsv_line T f now"
    "trim_end_matches [LF, CR] (to_tsv_line T f now @ [LF]) = to_tsv_line T f now"
proof -
  show *: "trim_end_matches [LF, CR] (to_tsv_line T f now) = to_tsv_line T f now"
    using suffix_to_tsv_line [OF assms] by (intro trim_end_matches_id) auto
  then show "trim_end_matches [LF, CR] (to_tsv_line T f now @ [LF]) = to_tsv_line T f now"
    by (simp add: trim_end_matches_def)
qed

lemma columns_to_tsv_line:
  assumes "rfc3339_ok T" and "clean_frame f"
  shows "columns (to_tsv_line T f now) = tsv_columns T f now"
    "columns (to_tsv_line T f now @ [LF]) = tsv_columns T f now"
  by (simp_all add: columns_def trim_end_matches_tsv [OF assms(2)] split_to_tsv_line [OF assms])

lemma trim_start_nonws_head:
  assumes "\<not> ws_byte c"
  shows "trim_start (c # s) = c # s"
proof -
  have "\<not> starts_ws (c # s)"
    using starts_ws_append [OF assms, of "[]"] by simp
  then show ?thesis by (rule trim_start_id)
qed

lemma not_ignorable_to_tsv_line:
  assumes "rfc3339_ok T" and "clean_frame f" and "format_rfc3339 T (stamp f now) = Some s"
  shows "\<not> ignorable (to_tsv_line T f now)" "\<not> ignorable (to_tsv_line T f now @ [LF])"
proof -
  have s: "s \<noteq> []" "set s \<subseteq> set rfc3339_chars"
    using assms unfolding rfc3339_ok_def by blast+
  then obtain c r where cr: "s = c # r" by (cases s) auto
  with s have c: "\<not> ws_byte c" "c \<noteq> CHR ''#''"
    using rfc3339_chars_clean [of c] by auto
  have "hd (tsv_columns T f now) = c # r"
    using assms(3) cr by (simp add: tsv_columns_def format_or_default_def)
  then obtain t where t: "to_tsv_line T f now = c # t"
    unfolding to_tsv_line_join tsv_columns_def by simp
  have "\<not> (trim (c # t) = [] \<or> prefix ''#'' (trim_start (c # t)))"
    using c trim_eq_Nil [of "c # t" c] trim_start_nonws_head [OF c(1), of t] by auto
  then show "\<not> ignorable (to_tsv_line T f now)" "\<not> ignorable (to_tsv_line T f now @ [LF])"
    unfolding ignorable_def Let_def trim_end_matches_tsv [OF assms(2)] unfolding t by simp_all
qed

lemma frame_of_tsv_columns:
  assumes "clean_frame f" and "no_ghost_flag (hf_kv f)"
  shows "frame_of (Some t) (tsv_columns T f now) = f\<lparr>hf_ts := Some t\<rparr>"
proof -
  have "trim (hf_kind f) = hf_kind f" "trim (hf_scope f) = hf_scope f" "trim (hf_id f) = hf_id f"
    "trim (hf_msg f) = hf_msg f"
    using assms by (simp_all add: clean_frame_def clean_field_def)
  moreover have "parse_kv_bag (trim (serialize_kv_bag (hf_kv f))) = hf_kv f"
    using assms by (simp add: clean_frame_def trimmed_serialize_kv_bag parse_serialize_kv_bag)
  ultimately show ?thesis
    by (simp add: frame_of_def tsv_columns_def level_parse_as_str)
qed

lemma parse_ts_column_format:
  assumes "rfc3339_ok T" and "format_rfc3339 T t = Some s"
  shows "parse_ts_column T (trim (format_or_default T t)) = Ok (Some t)"
proof -
  have "trim (format_or_default T t) = s"
    using assms format_clean(4) [OF assms(1), of t] by (simp add: format_or_default_def)
  moreover have "s \<noteq> []" "parse_rfc3339 T s = Some t"
    using assms unfolding rfc3339_ok_def by blast+
  ultimately show ?thesis by (simp add: parse_ts_column_def)
qed

lemma parse_to_tsv_line:
  assumes "rfc3339_ok T" and "clean_frame f" and "no_ghost_flag (hf_kv f)"
    and "format_rfc3339 T (stamp f now) = Some s"
  shows "parse_tsv_line T (to_tsv_line T f now) = Ok (Some (f\<lparr>hf_ts := Some (stamp f now)\<rparr>))"
    "parse_tsv_line T (to_tsv_line T f now @ [LF]) = Ok (Some (f\<lparr>hf_ts := Some (stamp f now)\<rparr>))"
proof -
  have "length (tsv_columns T f now) = 7"
    "tsv_columns T f now ! 0 = format_or_default T (stamp f now)"
    by (simp_all add: tsv_columns_def)
  then show "parse_tsv_line T (to_tsv_line T f now) = Ok (Some (f\<lparr>hf_ts := Some (stamp f now)\<rparr>))"
    "parse_tsv_line T (to_tsv_line T f now @ [LF]) = Ok (Some (f\<lparr>hf_ts := Some (stamp f now)\<rparr>))"
    using not_ignorable_to_tsv_line [OF assms(1,2,4)] parse_ts_column_format [OF assms(1,4)]
    by (simp_all add: parse_tsv_line_cases columns_to_tsv_line [OF assms(1,2)]
        frame_of_tsv_columns [OF assms(2,3)])
qed


lemma ghost_not_parsed:
  assumes "clean_kv m"
  shows "no_ghost_flag (parse_kv_bag (serialize_kv_bag m))"
proof -
  let ?s = "serialize_kv_bag m" and ?ps = "map kv_entry_str m"
  have "([], ''true'') \<notin> set (parse_kv_bag ?s)"
  proof
    assume g: "([], ''true'') \<in> set (parse_kv_bag ?s)"
    then have ne: "m \<noteq> []" by (auto simp: serialize_kv_bag_def parse_kv_bag_def)
    have "CHR '';'' \<notin> set (kv_entry_str e)" if "e \<in> set m" for e
      using entry_str_set [of e] assms that by (auto simp: clean_kv_def clean_entry_def)
    then have "split_on CHR '';'' ?s = ?ps"
      using ne by (simp add: serialize_kv_bag_def split_on_join)
    with g have "([], ''true'') \<in> set (bm.insert_all (List.map_filter part_entry ?ps) [])"
      by (simp add: parse_kv_bag_def fold_insert_kv_part split: if_splits)
    then have "([], ''true'') \<in> set (List.map_filter part_entry ?ps)"
      by (auto simp: mem_insert_all dest: map_of_SomeD)
    then obtain e where e: "e \<in> set m" "part_entry (kv_entry_str e) = Some ([], ''true'')"
      by (auto simp: map_filter_def)
    show False
    proof (cases "e = ([], ''true'')")
      case True
      with e show False by (simp add: kv_entry_str_def part_entry_def)
    next
      case False
      with e assms show False by (auto simp: clean_kv_def part_entry_entry_str)
    qed
  qed
  then show ?thesis by (simp add: no_ghost_flag_def)
qed

section \<open>Properties\<close>

text \<open>
  C6: the key-value bag survives printing and parsing exactly when it has no empty key
  bound to \<open>true\<close>, for every bag whose keys and values are trimmed and free of the
  separators (every bag the parser builds is).
\<close>

theorem kv_bag_round_trip:
  assumes "clean_kv m"
  shows "parse_kv_bag (serialize_kv_bag m) = m \<longleftrightarrow> no_ghost_flag m"
  using parse_serialize_kv_bag [OF assms] ghost_not_parsed [OF assms] by metis

theorem kv_bag_round_trip_witness:
  "parse_kv_bag (serialize_kv_bag [(''debug'', ''true''), (''pid'', ''123'')]) =
     [(''debug'', ''true''), (''pid'', ''123'')]
   \<and> parse_kv_bag (serialize_kv_bag [([], ''true''), (''pid'', ''123'')]) \<noteq>
     [([], ''true''), (''pid'', ''123'')]"
proof -
  have c: "clean_kv [(''debug'', ''true''), (''pid'', ''123'')]"
    "clean_kv [([], ''true''), (''pid'', ''123'')]"
    "no_ghost_flag [(''debug'', ''true''), (''pid'', ''123'')]"
    "\<not> no_ghost_flag [([], ''true''), (''pid'', ''123'')]"
    by code_simp+
  show ?thesis
    using kv_bag_round_trip [OF c(1)] kv_bag_round_trip [OF c(2)] c(3,4) by blast
qed


definition sample_line :: string where
  "sample_line = join [TAB] [[], ''HEALTH'', '' service '', ''alpha'', ''Warning'', ''alive'', ''pid=7; up''] @ [LF]"

definition sample_frame :: "int hawk_frame" where
  "sample_frame = \<lparr>hf_ts = None, hf_kind = ''HEALTH'', hf_scope = ''service'', hf_id = ''alpha'',
     hf_level = LWarn, hf_msg = ''alive'', hf_kv = [(''pid'', ''7''), (''up'', ''true'')]\<rparr>"

lemma sample_line_parses: "parse_tsv_line dec_time sample_line = Ok (Some sample_frame)"
  by code_simp


text \<open>
  C29: every parse failure is reported with its cause. \<open>Empty\<close> is never returned; too few
  columns means a line that is neither blank nor a comment with fewer than seven
  tab-separated columns, and the count reported is the number of columns; a bad timestamp
  means seven columns or more with a non-empty first column that RFC 3339 rejects.
\<close>

theorem parse_failure_causes:
  "parse_tsv_line T raw \<noteq> Err Empty
   \<and> (parse_tsv_line T raw = Err (TooFewColumns n) \<longleftrightarrow>
     \<not> ignorable raw \<and> n = Suc (count_list (trim_end_matches [LF, CR] raw) TAB) \<and> n < 7)
   \<and> (parse_tsv_line T raw = Err (BadTimestamp s) \<longleftrightarrow>
     \<not> ignorable raw \<and> 7 \<le> length (columns raw) \<and> s = trim (hd (columns raw)) \<and> s \<noteq> []
     \<and> parse_rfc3339 T s = None)
   \<and> (parse_tsv_line T raw = Ok None \<longleftrightarrow> ignorable raw)"
  by (auto simp: parse_tsv_line_cases parse_ts_column_def columns_def length_split_on hd_conv_nth
      split: option.splits)

text \<open>
  C26: The type invariant of a parsed frame: kind, scope, id and message are trimmed and
  contain no tab, and the bag is strictly ordered by key with trimmed keys and values that
  contain no separator.
\<close>

theorem parsed_frame_clean:
  assumes "parse_tsv_line T raw = Ok (Some f)"
  shows "clean_frame f"
  using assms by (rule clean_parsed_frame)

theorem parsed_frame_clean_witness:
  "parse_tsv_line dec_time sample_line = Ok (Some sample_frame) \<and> clean_frame sample_frame"
  using parsed_frame_clean [OF sample_line_parses] sample_line_parses by blast

section \<open>The unit tests of the crate\<close>

text \<open>
  The three tests of \<open>hawkframe.rs\<close>, for every \<open>time\<close> crate that reads the time stamp of the
  test line.
\<close>

definition test_line :: string where
  "test_line = join [TAB] [''2026-02-16T12:34:56Z'', ''HEALTH'', ''service'', ''alpha'', ''ok'', ''alive'', ''pid=123;uptime_s=9'']"

lemma test_line_parts:
  "trim_end_matches [LF, CR] test_line = test_line" "trim test_line \<noteq> []" "\<not> prefix ''#'' (trim_start test_line)"
  "split_on TAB test_line = [''2026-02-16T12:34:56Z'', ''HEALTH'', ''service'', ''alpha'', ''ok'', ''alive'', ''pid=123;uptime_s=9'']"
  by code_simp+

lemma test_fields:
  "trim ''2026-02-16T12:34:56Z'' = ''2026-02-16T12:34:56Z''" "trim ''HEALTH'' = ''HEALTH''" "trim ''service'' = ''service''" "trim ''alpha'' = ''alpha''" "trim ''alive'' = ''alive''"
  "level_parse ''ok'' = LOk" "parse_kv_bag (trim ''pid=123;uptime_s=9'') = [(''pid'', ''123''), (''uptime_s'', ''9'')]"
  by code_simp+

lemma parses_minimal_line:
  assumes "parse_rfc3339 T ''2026-02-16T12:34:56Z'' = Some ts"
  shows "parse_tsv_line T test_line = Ok (Some \<lparr>hf_ts = Some ts, hf_kind = ''HEALTH'', hf_scope = ''service'', hf_id = ''alpha'',
    hf_level = LOk, hf_msg = ''alive'', hf_kv = [(''pid'', ''123''), (''uptime_s'', ''9'')]\<rparr>)"
proof -
  have "parse_ts_column T ''2026-02-16T12:34:56Z'' = Ok (Some ts)"
    using assms by (simp add: parse_ts_column_def)
  then show ?thesis
    unfolding parse_tsv_line_def Let_def test_line_parts(1,4) using test_line_parts(2,3) by (simp add: test_fields)
qed

lemma ignores_comments: "parse_tsv_line T ''# comment'' = Ok None"
proof -
  have "trim_end_matches [LF, CR] ''# comment'' = ''# comment''" "prefix ''#'' (trim_start ''# comment'')" by code_simp+
  then show ?thesis by (simp add: parse_tsv_line_def Let_def)
qed

lemma emits_tsv_with_kv:
  assumes "parse_rfc3339 T ''2026-02-16T12:34:56Z'' = Some ts"
  shows "\<exists>f. parse_tsv_line T test_line = Ok (Some f)
    \<and> contains (join [TAB] [[], ''HEALTH'', ''service'', ''alpha'', ''ok'', ''alive'', []]) (to_tsv_line T f now)
    \<and> contains ''pid=123'' (to_tsv_line T f now)"
proof -
  let ?f = "\<lparr>hf_ts = Some ts, hf_kind = ''HEALTH'', hf_scope = ''service'', hf_id = ''alpha'',
    hf_level = LOk, hf_msg = ''alive'', hf_kv = [(''pid'', ''123''), (''uptime_s'', ''9'')]\<rparr>"
  have e: "serialize_kv_bag [(''pid'', ''123''), (''uptime_s'', ''9'')] = ''pid=123;uptime_s=9''" "level_as_str LOk = ''ok''"
    by code_simp+
  have "to_tsv_line T ?f now = format_or_default T ts
      @ join [TAB] [[], ''HEALTH'', ''service'', ''alpha'', ''ok'', ''alive'', []] @ (''pid=123'' @ '';uptime_s=9'')"
    by (simp add: to_tsv_line_def e)
  then have "contains (join [TAB] [[], ''HEALTH'', ''service'', ''alpha'', ''ok'', ''alive'', []]) (to_tsv_line T ?f now)"
    "contains ''pid=123'' (to_tsv_line T ?f now)"
    unfolding contains_iff by (metis append.assoc)+
  with parses_minimal_line [OF assms] show ?thesis by blast
qed

end
