(* ===== verification/Frame_Emit.thy ===== *)
theory Frame_Emit
  imports Hawkframe
begin

text \<open>
  What a reader makes of a line that a source prints from a frame it has put together
  itself. Such a frame is not a parsed one: its message and its bag hold text from outside,
  which may have separators. The lemmas give the columns of the printed line, the frame that
  is read back, and when an entry of the bag arrives unchanged although others do not.
\<close>

lemma trim_end_matches_keep:
  "c \<notin> set cs \<Longrightarrow> trim_end_matches cs (u @ c # v) = u @ c # trim_end_matches cs v"
  by (auto simp: trim_end_matches_def dropWhile_append)

lemma trim_end_matches_snoc [simp]: "c \<in> set cs \<Longrightarrow> trim_end_matches cs (s @ [c]) = trim_end_matches cs s"
  by (simp add: trim_end_matches_def)

lemma count_list_trim_end_matches:
  "c \<notin> set cs \<Longrightarrow> count_list (trim_end_matches cs s) c = count_list s c"
proof (induction s rule: rev_induct)
  case Nil
  then show ?case by (simp add: trim_end_matches_def)
next
  case (snoc x xs)
  then show ?case
    by (cases "x \<in> set cs") (auto simp: trim_end_matches_def)
qed

lemma split_on_join_front:
  assumes "\<forall>p \<in> set ps. c \<notin> set p"
  shows "split_on c (join [c] (ps @ [r])) = ps @ split_on c r"
  using assms
proof (induction ps)
  case (Cons p ps)
  then show ?case by (cases ps) (auto simp: split_on_append)
qed simp

lemma split_on_join_concat:
  "ps \<noteq> [] \<Longrightarrow> split_on c (join [c] ps) = concat (map (split_on c) ps)"
proof (induction "[c]" ps rule: join.induct)
  case (3 p q ps)
  have "split_on c (u @ c # v) = split_on c u @ split_on c v" for u v
    by (induction u) (auto simp: neq_Nil_conv split: list.splits)
  with 3 show ?case by simp
qed simp_all

section \<open>The columns and the frame read back\<close>

definition tab_free :: "'t hawk_frame \<Rightarrow> bool" where
  "tab_free f \<longleftrightarrow> TAB \<notin> set (hf_kind f) \<and> TAB \<notin> set (hf_scope f) \<and> TAB \<notin> set (hf_id f)
     \<and> TAB \<notin> set (hf_msg f)"

definition front_columns :: "'t time_api \<Rightarrow> 't hawk_frame \<Rightarrow> 't \<Rightarrow> string list" where
  "front_columns T f now = butlast (tsv_columns T f now)"

lemma level_as_str_TAB: "TAB \<notin> set (level_as_str l)"
  by (cases l) auto

lemma front_columns_TAB:
  "rfc3339_ok T \<Longrightarrow> tab_free f \<Longrightarrow> p \<in> set (front_columns T f now) \<Longrightarrow> TAB \<notin> set p"
  using format_clean(1) [of T] level_as_str_TAB
  by (auto simp: front_columns_def tsv_columns_def tab_free_def)

lemma to_tsv_line_front:
  "to_tsv_line T f now =
     join [TAB] (front_columns T f now) @ TAB # serialize_kv_bag (hf_kv f)"
  by (simp add: to_tsv_line_join front_columns_def tsv_columns_def)

lemma emitted_line_stripped:
  "trim_end_matches [LF, CR] (to_tsv_line T f now @ [LF]) =
     join [TAB] (front_columns T f now) @ TAB # trim_end_matches [LF, CR] (serialize_kv_bag (hf_kv f))"
  by (simp add: to_tsv_line_front trim_end_matches_keep flip: append_assoc append_Cons)

lemma join_snoc: "ps \<noteq> [] \<Longrightarrow> join [c] ps @ c # r = join [c] (ps @ [r])"
  by (induction "[c]" ps rule: join.induct) auto

lemma front_columns_not_Nil [simp]: "front_columns T f now \<noteq> []"
  by (simp add: front_columns_def tsv_columns_def)

lemma length_front_columns [simp]: "length (front_columns T f now) = 6"
  by (simp add: front_columns_def tsv_columns_def)

lemma emitted_columns:
  assumes "rfc3339_ok T" and "tab_free f"
  shows "columns (to_tsv_line T f now @ [LF]) =
    front_columns T f now @ split_on TAB (trim_end_matches [LF, CR] (serialize_kv_bag (hf_kv f)))"
  unfolding columns_def emitted_line_stripped join_snoc [OF front_columns_not_Nil]
  using front_columns_TAB [OF assms] by (intro split_on_join_front) blast

lemma emitted_column_count:
  assumes "rfc3339_ok T" and "tab_free f"
  shows "length (columns (to_tsv_line T f now @ [LF])) = 7 + count_list (serialize_kv_bag (hf_kv f)) TAB"
  by (simp add: emitted_columns [OF assms] length_split_on count_list_trim_end_matches)

definition read_back :: "'t \<Rightarrow> 't hawk_frame \<Rightarrow> 't hawk_frame" where
  "read_back t f =
     \<lparr>hf_ts = Some t, hf_kind = trim (hf_kind f), hf_scope = trim (hf_scope f), hf_id = trim (hf_id f),
      hf_level = hf_level f, hf_msg = trim (hf_msg f),
      hf_kv = parse_kv_bag (trim (hd (split_on TAB
                (trim_end_matches [LF, CR] (serialize_kv_bag (hf_kv f))))))\<rparr>"

lemma emitted_not_ignorable:
  assumes "rfc3339_ok T" and "format_rfc3339 T (stamp f now) = Some s"
  shows "\<not> ignorable (to_tsv_line T f now @ [LF])"
proof -
  have s: "s \<noteq> []" "set s \<subseteq> set rfc3339_chars"
    using assms unfolding rfc3339_ok_def by blast+
  then obtain c r where cr: "s = c # r" by (cases s) auto
  with s have c: "\<not> ws_byte c" "c \<noteq> CHR ''#''"
    using rfc3339_chars_clean [of c] by auto
  obtain t where t: "trim_end_matches [LF, CR] (to_tsv_line T f now @ [LF]) = c # t"
    using assms(2) cr unfolding emitted_line_stripped
    by (simp add: front_columns_def tsv_columns_def format_or_default_def)
  show ?thesis
    using c trim_eq_Nil [of "c # t" c] trim_start_nonws_head [OF c(1), of t]
    unfolding ignorable_def Let_def t by auto
qed

lemma parse_emitted:
  assumes "rfc3339_ok T" and "tab_free f" and "format_rfc3339 T (stamp f now) = Some s"
  shows "parse_tsv_line T (to_tsv_line T f now @ [LF]) = Ok (Some (read_back (stamp f now) f))"
proof -
  let ?kv = "split_on TAB (trim_end_matches [LF, CR] (serialize_kv_bag (hf_kv f)))"
  have cols: "columns (to_tsv_line T f now @ [LF]) = front_columns T f now @ ?kv"
    by (rule emitted_columns [OF assms(1,2)])
  have "frame_of ts (front_columns T f now @ ?kv) = (read_back (stamp f now) f)\<lparr>hf_ts := ts\<rparr>" for ts
    by (cases ?kv) (simp_all add: frame_of_def read_back_def front_columns_def tsv_columns_def
        level_parse_as_str)
  moreover have "(front_columns T f now @ ?kv) ! 0 = format_or_default T (stamp f now)"
    by (simp add: front_columns_def tsv_columns_def)
  moreover have "\<not> length (front_columns T f now @ ?kv) < 7"
    by (simp add: length_split_on)
  ultimately show ?thesis
    using emitted_not_ignorable [OF assms(1,3)] parse_ts_column_format [OF assms(1,3)]
    by (simp add: parse_tsv_line_cases cols read_back_def del: length_append)
qed

section \<open>Entries that arrive\<close>

text \<open>
  An entry of clean text is read back as printed when the entries printed after it are clean
  too and have other keys, whatever separators the entries before it have.
\<close>

lemma map_filter_append: "List.map_filter f (xs @ ys) = List.map_filter f xs @ List.map_filter f ys"
  by (simp add: map_filter_def)

lemma clean_entry_split:
  "clean_entry e \<Longrightarrow> split_on CHR '';'' (kv_entry_str e) = [kv_entry_str e]"
  using entry_str_set [of e] by (intro split_on_no_sep) (auto simp: clean_entry_def)

lemma concat_clean_split:
  "\<forall>e \<in> set es. clean_entry e \<Longrightarrow>
     concat (map (split_on CHR '';'') (map kv_entry_str es)) = map kv_entry_str es"
  by (induction es) (auto simp: clean_entry_split)

lemma entry_arrives:
  assumes kv: "kv = pre @ (k, v) # post"
    and clean: "\<forall>e \<in> set ((k, v) # post). clean_entry e \<and> e \<noteq> ([], ''true'')"
    and other: "k \<notin> fst ` set post"
    and ends: "trimmed (serialize_kv_bag kv)"
  shows "bm_get (parse_kv_bag (serialize_kv_bag kv)) k = Some v"
proof -
  let ?es = "(k, v) # post"
  let ?dirty = "List.map_filter part_entry (concat (map (split_on CHR '';'') (map kv_entry_str pre)))"
  have split: "split_on CHR '';'' (serialize_kv_bag kv) =
      concat (map (split_on CHR '';'') (map kv_entry_str pre)) @ map kv_entry_str ?es"
    using clean concat_clean_split [of ?es]
    by (simp add: serialize_kv_bag_def kv split_on_join_concat)
  have parts: "List.map_filter part_entry (split_on CHR '';'' (serialize_kv_bag kv)) = ?dirty @ ?es"
    unfolding split map_filter_append using map_filter_part_entry [OF clean] by simp
  have "serialize_kv_bag kv \<noteq> []"
  proof
    assume "serialize_kv_bag kv = []"
    with parts show False by (simp add: map_filter_def part_entry_def)
  qed
  then have "parse_kv_bag (serialize_kv_bag kv) = bm.insert_all (?dirty @ ?es) []"
    using ends by (simp add: parse_kv_bag_def fold_insert_kv_part parts)
  moreover have "map_of (rev post) k = None"
    using other by (simp add: map_of_eq_None_iff)
  then have "map_of (rev (?dirty @ ?es)) k = Some v"
    by (simp add: map_add_def)
  ultimately show ?thesis
    by (simp add: bm.get_insert_all)
qed

lemma ends_ws_join_last:
  "\<not> ws_byte c \<Longrightarrow> ps \<noteq> [] \<Longrightarrow> ends_ws (join [c] ps) = ends_ws (last ps)"
  by (induction "[c]" ps rule: join.induct) (simp_all add: ends_ws_append)

lemma starts_ws_join_hd:
  "\<not> ws_byte c \<Longrightarrow> ps \<noteq> [] \<Longrightarrow> starts_ws (join [c] ps) = starts_ws (hd ps)"
  by (induction "[c]" ps rule: join.induct) (simp_all add: starts_ws_append)

lemma trimmed_join_ends:
  assumes "\<not> ws_byte c" and "ps \<noteq> []" and "\<not> starts_ws (hd ps)" and "\<not> ends_ws (last ps)"
  shows "trimmed (join [c] ps)"
  using assms by (simp add: trimmed_def ends_ws_join_last starts_ws_join_hd)

lemma kv_entry_str_ends:
  "clean_field k \<Longrightarrow> \<not> starts_ws (kv_entry_str (k, v))"
  "clean_entry e \<Longrightarrow> \<not> ends_ws (kv_entry_str e)"
  using trimmed_entry_str [of e]
  by (auto simp: kv_entry_str_def clean_field_def trimmed_def starts_ws_append)

lemma trim_end_matches_trimmed: "trimmed s \<Longrightarrow> trim_end_matches [LF, CR] s = s"
  using trimmed_last white_space_newlines by (intro trim_end_matches_id) auto

lemma entry_read_back:
  assumes kv: "hf_kv f = pre @ (k, v) # post"
    and clean: "\<forall>e \<in> set ((k, v) # post). clean_entry e \<and> e \<noteq> ([], ''true'')"
    and other: "k \<notin> fst ` set post"
    and first: "clean_field (fst (hd (hf_kv f)))"
    and tabs: "\<forall>e \<in> set (hf_kv f). TAB \<notin> set (fst e) \<and> TAB \<notin> set (snd e)"
  shows "bm_get (hf_kv (read_back t f)) k = Some v"
proof -
  let ?s = "serialize_kv_bag (hf_kv f)"
  have "hd (map kv_entry_str (hf_kv f)) = kv_entry_str (hd (hf_kv f))"
    by (cases pre) (simp_all add: kv)
  then have "\<not> starts_ws (hd (map kv_entry_str (hf_kv f)))"
    using kv_entry_str_ends(1) [OF first, of "snd (hd (hf_kv f))"] by simp
  moreover have "last (map kv_entry_str (hf_kv f)) = kv_entry_str (last ((k, v) # post))"
    by (simp add: kv last_map)
  then have "\<not> ends_ws (last (map kv_entry_str (hf_kv f)))"
    using kv_entry_str_ends(2) [of "last ((k, v) # post)"] clean last_in_set [of "(k, v) # post"] by simp
  ultimately have ends: "trimmed ?s"
    using trimmed_join_ends [of "CHR '';''" "map kv_entry_str (hf_kv f)"] by (simp add: serialize_kv_bag_def kv)
  have "TAB \<notin> set (kv_entry_str e)" if "e \<in> set (hf_kv f)" for e
    using entry_str_set [of e] tabs that by auto
  then have "TAB \<notin> set ?s"
    using set_join [of "'';''" "map kv_entry_str (hf_kv f)"] by (auto simp: serialize_kv_bag_def)
  then have "hf_kv (read_back t f) = parse_kv_bag ?s"
    using ends by (simp add: read_back_def trim_end_matches_trimmed split_on_no_sep)
  with entry_arrives [OF kv clean other ends] show ?thesis by simp
qed

lemma clean_ttl_entry:
  "k = ''ttl_stale_s'' \<or> k = ''ttl_dead_s'' \<Longrightarrow> clean_entry (k, i64_to_string n)"
proof -
  have "\<forall>c \<in> set (i64_to_string n). plain_char c"
    using i64_to_string_plain by blast
  then have "clean_field (i64_to_string n)" "CHR '';'' \<notin> set (i64_to_string n)"
    by (auto simp: clean_field_def intro!: trimmed_no_ws dest: plain_charD)
  moreover have "clean_field ''ttl_stale_s''" "clean_field ''ttl_dead_s''"
    by code_simp+
  ultimately show "k = ''ttl_stale_s'' \<or> k = ''ttl_dead_s'' \<Longrightarrow> ?thesis"
    by (auto simp: clean_entry_def)
qed

lemma TAB_i64: "TAB \<notin> set (i64_to_string n)"
  using i64_to_string_plain plain_charD(2) by blast

text \<open>What comes before the time-to-live values in a bag may be anything.\<close>

lemma ttl_read_back:
  assumes kv: "hf_kv f = pre @ [(''ttl_dead_s'', i64_to_string d), (''ttl_stale_s'', i64_to_string s)] @ post"
    and post: "\<forall>e \<in> set post. clean_entry e \<and> e \<noteq> ([], ''true'')"
      "''ttl_dead_s'' \<notin> fst ` set post" "''ttl_stale_s'' \<notin> fst ` set post"
    and first: "clean_field (fst (hd (hf_kv f)))"
    and tabs: "\<forall>e \<in> set (hf_kv f). TAB \<notin> set (fst e) \<and> TAB \<notin> set (snd e)"
  shows "bm_get (hf_kv (read_back t f)) ''ttl_dead_s'' = Some (i64_to_string d)"
    "bm_get (hf_kv (read_back t f)) ''ttl_stale_s'' = Some (i64_to_string s)"
proof -
  have c: "clean_entry (''ttl_dead_s'', i64_to_string d)" "clean_entry (''ttl_stale_s'', i64_to_string s)"
    by (simp_all add: clean_ttl_entry)
  show "bm_get (hf_kv (read_back t f)) ''ttl_dead_s'' = Some (i64_to_string d)"
    by (rule entry_read_back [OF _ _ _ first tabs, of pre _ _ "(''ttl_stale_s'', i64_to_string s) # post"])
      (use kv c post in simp_all)
  show "bm_get (hf_kv (read_back t f)) ''ttl_stale_s'' = Some (i64_to_string s)"
    by (rule entry_read_back [OF _ _ _ first tabs,
          of "pre @ [(''ttl_dead_s'', i64_to_string d)]" _ _ post])
      (use kv c post in simp_all)
qed

section \<open>Streams of printed lines\<close>

text \<open>Parsing invents no characters but those of \<open>true\<close>.\<close>

lemma part_entry_chars:
  assumes "part_entry p = Some (k, v)"
  shows "set k \<subseteq> set p" "set v \<subseteq> set p \<union> set ''true''"
proof -
  have "set k \<subseteq> set p \<and> set v \<subseteq> set p \<union> set ''true''"
  proof (cases "split_once CHR ''='' (trim p)")
    case None
    with assms set_trim [of p] show ?thesis
      by (auto simp: part_entry_def Let_def split: if_splits)
  next
    case (Some ab)
    obtain a b where ab: "ab = (a, b)" by force
    from Some ab have "trim p = a @ CHR ''='' # b" by (simp add: split_once_SomeD)
    then have "set a \<subseteq> set p" "set b \<subseteq> set p" using set_trim [of p] by auto
    moreover from assms Some ab have "k = trim a" "v = trim b"
      by (auto simp: part_entry_def Let_def split: if_splits)
    ultimately show ?thesis using set_trim [of a] set_trim [of b] by blast
  qed
  then show "set k \<subseteq> set p" "set v \<subseteq> set p \<union> set ''true''" by auto
qed

lemma parse_kv_bag_chars:
  assumes "(k, v) \<in> set (parse_kv_bag s)"
  shows "set k \<subseteq> set s" "set v \<subseteq> set s \<union> set ''true''"
proof -
  from assms have "(k, v) \<in> set (bm.insert_all (List.map_filter part_entry (split_on CHR '';'' s)) [])"
    by (auto simp: parse_kv_bag_def fold_insert_kv_part split: if_splits)
  then have "(k, v) \<in> set (List.map_filter part_entry (split_on CHR '';'' s))"
    using map_of_SomeD unfolding mem_insert_all by fastforce
  then obtain p where p: "p \<in> set (split_on CHR '';'' s)" "part_entry p = Some (k, v)"
    by (auto simp: map_filter_def)
  with split_on_pieces [OF p(1)] part_entry_chars [OF p(2)]
  show "set k \<subseteq> set s" "set v \<subseteq> set s \<union> set ''true''" by blast+
qed

definition lf_free :: "'t hawk_frame \<Rightarrow> bool" where
  "lf_free f \<longleftrightarrow> LF \<notin> set (hf_kind f) \<and> LF \<notin> set (hf_scope f) \<and> LF \<notin> set (hf_id f)
     \<and> LF \<notin> set (hf_msg f) \<and> (\<forall>e \<in> set (hf_kv f). LF \<notin> set (fst e) \<and> LF \<notin> set (snd e))"

lemma lf_free_to_tsv_line:
  assumes "rfc3339_ok T" and "lf_free f"
  shows "LF \<notin> set (to_tsv_line T f now)"
proof -
  have "LF \<notin> set (kv_entry_str e)" if "e \<in> set (hf_kv f)" for e
    using entry_str_set [of e] assms(2) that by (auto simp: lf_free_def)
  then have "LF \<notin> set (serialize_kv_bag (hf_kv f))"
    using set_join [of "'';''" "map kv_entry_str (hf_kv f)"] by (auto simp: serialize_kv_bag_def)
  moreover have "LF \<notin> set (level_as_str l)" for l by (cases l) auto
  ultimately have "\<forall>c \<in> set (tsv_columns T f now). LF \<notin> set c"
    using assms format_clean(2) [of T] by (simp add: tsv_columns_def lf_free_def)
  then show ?thesis
    unfolding to_tsv_line_join using set_join [of "[TAB]" "tsv_columns T f now"] by auto
qed

text \<open>A line as a reader delivers it: a line feed can only be at the end.\<close>

definition one_line :: "string \<Rightarrow> bool" where
  "one_line l \<longleftrightarrow> LF \<notin> set (butlast l)"

lemma one_line_stripped: "one_line l \<Longrightarrow> LF \<notin> set (trim_end_matches [LF, CR] l)"
proof (cases l rule: rev_cases)
  case (snoc u c)
  assume "one_line l"
  with snoc have u: "LF \<notin> set u" by (simp add: one_line_def)
  show ?thesis
  proof (cases "c \<in> set [LF, CR]")
    case True
    with snoc u trim_end_matches_set [of "[LF, CR]" u] show ?thesis by auto
  next
    case False
    with snoc u show ?thesis by (auto simp: trim_end_matches_def)
  qed
qed (simp add: trim_end_matches_def)

lemma lf_free_parsed:
  assumes "parse_tsv_line T l = Ok (Some f)" and "one_line l"
  shows "lf_free f"
proof -
  let ?s = "trim_end_matches [LF, CR] l"
  from parse_tsv_line_SomeD [OF assms(1)] obtain ts where
    f: "f = frame_of ts (columns l)" and n: "7 \<le> length (columns l)" by blast
  have col: "LF \<notin> set (trim (columns l ! i))" if "i < 7" for i
  proof -
    have "columns l ! i \<in> set (split_on TAB ?s)" using n that by (simp add: columns_def)
    then have "set (columns l ! i) \<subseteq> set ?s" using split_on_pieces by blast
    with one_line_stripped [OF assms(2)] set_trim [of "columns l ! i"] show ?thesis by blast
  qed
  moreover have "LF \<notin> set k \<and> LF \<notin> set v" if "(k, v) \<in> set (parse_kv_bag (trim (columns l ! 6)))" for k v
    using parse_kv_bag_chars [OF that] col [of 6] by auto
  ultimately show ?thesis
    by (auto simp: lf_free_def f frame_of_def)
qed

text \<open>The lines a reader makes of a run of printed frames are the printed frames.\<close>

definition printed :: "'t time_api \<Rightarrow> 't hawk_frame \<times> 't \<Rightarrow> string" where
  "printed T fn = to_tsv_line T (fst fn) (snd fn)"

lemma lines_printed:
  assumes "rfc3339_ok T" and "\<forall>fn \<in> set fs. clean_frame (fst fn) \<and> lf_free (fst fn)"
  shows "lines (concat (map (\<lambda>fn. printed T fn @ [LF]) fs)) = map (printed T) fs"
  using assms(2)
proof (induction fs)
  case (Cons fn fs)
  then have "LF \<notin> set (printed T fn)" "\<not> suffix [CR] (printed T fn)"
    using lf_free_to_tsv_line [OF assms(1), of "fst fn"] suffix_to_tsv_line [of "fst fn" CR]
    by (simp_all add: printed_def)
  with Cons show ?case by (simp add: lines_Cons chomp_cr_id)
qed simp

section \<open>Times\<close>

text \<open>A time that was read from text can be printed again.\<close>

definition reformats :: "'t time_api \<Rightarrow> bool" where
  "reformats T \<longleftrightarrow> (\<forall>s t. parse_rfc3339 T s = Some t \<longrightarrow> format_rfc3339 T t \<noteq> None)"

lemma reformats_dec_time: "reformats dec_time"
  by (auto simp: reformats_def dec_time_def dest: parse_i64_range)

lemma parsed_stamp_formats:
  assumes "reformats T" and "format_rfc3339 T now \<noteq> None" and "parse_tsv_line T line = Ok (Some f)"
  shows "\<exists>s. format_rfc3339 T (stamp f now) = Some s"
proof -
  from parse_tsv_line_SomeD(3) [OF assms(3)] obtain ts where
    "parse_ts_column T (trim (columns line ! 0)) = Ok ts" "f = frame_of ts (columns line)"
    by blast
  with assms(1,2) show ?thesis
    by (cases ts)
      (auto simp: stamp_def frame_of_def parse_ts_column_def reformats_def
        split: if_splits option.splits)
qed

end
