(* ===== verification/Rust_Debug.thy ===== *)
theory Rust_Debug
  imports Hawkframe
begin

text \<open>
  The \<open>{:?}\<close> rendering of a string and of a parse error, as the derived \<open>Debug\<close>
  prints them. ASCII is escaped as \<open>str::escape_debug\<close> documents; which other characters
  are printable is a table of the Unicode version in use, so their rendering is the
  parameter \<open>U\<close>, from the encoded character to its text.
\<close>

abbreviation BSL :: char where "BSL \<equiv> CHR 0x5C"

definition hex_digit :: "int \<Rightarrow> char" where
  "hex_digit d = (if d < 10 then char_of (48 + d) else char_of (87 + d))"

definition debug_ascii :: "char \<Rightarrow> string" where
  "debug_ascii c =
     (let n = of_char c :: int in
      if n = 0 then [BSL, CHR ''0'']
      else if c = TAB then [BSL, CHR ''t'']
      else if c = CR then [BSL, CHR ''r'']
      else if c = LF then [BSL, CHR ''n'']
      else if c = DQ then [BSL, DQ]
      else if c = BSL then [BSL, BSL]
      else if n < 32 \<or> n = 127 then
        BSL # ''u{'' @ (if n < 16 then [] else [hex_digit (n div 16)]) @ [hex_digit (n mod 16)] @ ''}''
      else [c])"

function debug_chars :: "(string \<Rightarrow> string) \<Rightarrow> string \<Rightarrow> string" where
  "debug_chars U [] = []"
| "debug_chars U (c # cs) =
     (if (of_char c :: int) < 128 then debug_ascii c @ debug_chars U cs
      else U (c # take (utf8_rest c) cs) @ debug_chars U (drop (utf8_rest c) cs))"
  by pat_completeness auto
termination
  by (relation "measure (\<lambda>(U, s). length s)") auto

definition debug_str :: "(string \<Rightarrow> string) \<Rightarrow> string \<Rightarrow> string" where
  "debug_str U s = DQ # debug_chars U s @ [DQ]"

fun debug_parse_error :: "(string \<Rightarrow> string) \<Rightarrow> parse_error \<Rightarrow> string" where
  "debug_parse_error U Empty = ''Empty''"
| "debug_parse_error U (TooFewColumns n) = ''TooFewColumns { found: '' @ usize_to_string n @ '' }''"
| "debug_parse_error U (BadTimestamp s) = ''BadTimestamp { raw: '' @ debug_str U s @ '' }''"

section \<open>Control characters are escaped\<close>

text \<open>What the escaping promises of the characters outside ASCII.\<close>

definition escapes_controls :: "(string \<Rightarrow> string) \<Rightarrow> bool" where
  "escapes_controls U \<longleftrightarrow> (\<forall>s. TAB \<notin> set (U s) \<and> LF \<notin> set (U s) \<and> CR \<notin> set (U s))"

lemma hex_digit_plain:
  assumes "0 \<le> d" "d < 16"
  shows "hex_digit d \<notin> {TAB, LF, CR}"
proof -
  have "(of_char (hex_digit d) :: int) = (if d < 10 then 48 + d else 87 + d)"
    using assms by (simp add: hex_digit_def)
  then show ?thesis using assms by (auto split: if_splits)
qed

lemma debug_ascii_controls: "set (debug_ascii c) \<inter> {TAB, LF, CR} = {}"
proof -
  let ?n = "of_char c :: int"
  have "0 \<le> ?n mod 16" "?n mod 16 < 16" by simp_all
  from hex_digit_plain [OF this] have lo: "hex_digit (?n mod 16) \<notin> {TAB, LF, CR}" .
  show ?thesis
  proof (cases "?n < 32 \<or> ?n = 127")
    case True
    moreover have "0 \<le> int (of_char c)" by (rule of_nat_0_le_iff)
    then have "0 \<le> ?n" unfolding of_nat_of_char .
    ultimately have "0 \<le> ?n div 16" "?n div 16 < 16" by (auto simp: pos_imp_zdiv_nonneg_iff)
    from hex_digit_plain [OF this] lo show ?thesis
      by (auto simp: debug_ascii_def Let_def)
  next
    case False
    then show ?thesis by (auto simp: debug_ascii_def Let_def)
  qed
qed

lemma debug_chars_controls:
  "escapes_controls U \<Longrightarrow> set (debug_chars U s) \<inter> {TAB, LF, CR} = {}"
proof (induction U s rule: debug_chars.induct)
  case (2 U c cs)
  then show ?case
    using debug_ascii_controls [of c] by (auto simp: escapes_controls_def)
qed simp

lemma usize_to_string_plain: "x \<in> set (usize_to_string n) \<Longrightarrow> plain_char x"
  using i64_to_string_plain [of x "int n"] by (simp add: usize_to_string_def i64_to_string_def)

lemma debug_parse_error_controls:
  assumes "escapes_controls U"
  shows "TAB \<notin> set (debug_parse_error U e)" "LF \<notin> set (debug_parse_error U e)"
proof -
  have "set (usize_to_string n) \<inter> {TAB, LF, CR} = {}" for n
    by (blast dest: usize_to_string_plain plain_charD(2-4))
  then have "set (debug_parse_error U e) \<inter> {TAB, LF, CR} = {}"
    using debug_chars_controls [OF assms]
    by (cases e) (auto simp: debug_str_def)
  then show "TAB \<notin> set (debug_parse_error U e)" "LF \<notin> set (debug_parse_error U e)" by auto
qed

end
