(* ===== verification/Hawkd_Ingest.thy ===== *)
theory Hawkd_Ingest
  imports Frame_Emit Rust_Debug
begin

text \<open>
  The ingest socket of the daemon (\<open>crates/hawkd/src/unix_ingest.rs\<close>): binding the
  listener, one thread per accepted publisher, and the frame that reports a line that does
  not parse. Clipping a long line inside a character panics, which ends the thread of that
  publisher. Paths are UTF-8 text; the operating system's sockets are a parameter.
\<close>

record 'w sock_api =
  sk_remove_file :: "string \<Rightarrow> 'w \<Rightarrow> 'w"
  sk_bind :: "string \<Rightarrow> 'w \<Rightarrow> string + 'w"

text \<open>One item of \<open>lines()\<close>, with the clock reading when it is handled.\<close>

datatype 't client_event = ClientLine string 't | ClientError

definition clip_raw :: "string \<Rightarrow> string option" where
  "clip_raw raw =
     (if 240 < length raw then map_option (\<lambda>c. c @ ''...'') (truncate_str 240 raw) else Some raw)"

text \<open>\<open>None\<close> is the panic of \<open>truncate\<close>.\<close>

definition parse_error_frame :: "'t \<Rightarrow> string \<Rightarrow> string \<Rightarrow> string \<Rightarrow> 't hawk_frame option" where
  "parse_error_frame now ingest_path raw err =
     (let kv = bm_insert ''ingest_path'' ingest_path [];
          kv = bm_insert ''error'' err kv
      in case clip_raw raw of
           None \<Rightarrow> None
         | Some clipped \<Rightarrow>
             Some \<lparr>hf_ts = Some now, hf_kind = ''RECEIPT_EVENT'', hf_scope = ''hawkd'', hf_id = ''ingest'',
                   hf_level = LWarn, hf_msg = ''ingest parse error'',
                   hf_kv = bm_insert ''raw'' clipped kv\<rparr>)"

fun ingest_lines ::
  "'t time_api \<Rightarrow> (string \<Rightarrow> string) \<Rightarrow> string \<Rightarrow> bool \<Rightarrow> 't client_event list \<Rightarrow> string list" where
  "ingest_lines T U path strict [] = []"
| "ingest_lines T U path strict (ClientError # es) = []"
| "ingest_lines T U path strict (ClientLine line now # es) =
     (case parse_tsv_line T line of
        Inr (Some frame) \<Rightarrow> (to_tsv_line T frame now @ [LF]) # ingest_lines T U path strict es
      | Inr None \<Rightarrow> ingest_lines T U path strict es
      | Inl e \<Rightarrow>
          (case parse_error_frame now path line (debug_parse_error U e) of
             None \<Rightarrow> []
           | Some err_frame \<Rightarrow>
               (to_tsv_line T err_frame now @ [LF])
               # (if strict then [] else ingest_lines T U path strict es)))"

text \<open>What is written to the publisher, and what is sent to the spine.\<close>

definition handle_ingest_client ::
  "'t time_api \<Rightarrow> (string \<Rightarrow> string) \<Rightarrow> string \<Rightarrow> bool \<Rightarrow> 't client_event list \<Rightarrow> string \<times> string list" where
  "handle_ingest_client T U path strict es =
     (''# hawkd ingest connected'' @ [LF], ingest_lines T U path strict es)"

text \<open>The sockets after binding, and the threads of the accepted publishers.\<close>

definition spawn_unix_ingest ::
  "'w sock_api \<Rightarrow> 't time_api \<Rightarrow> (string \<Rightarrow> string) \<Rightarrow> string \<Rightarrow> bool \<Rightarrow> bool
    \<Rightarrow> (string + 't client_event list) list \<Rightarrow> 'w \<Rightarrow> string + 'w \<times> (string \<times> string list) list" where
  "spawn_unix_ingest K T U path overwrite strict incoming w =
     (let w1 = (if overwrite then sk_remove_file K path w else w) in
      and_then (sk_bind K path w1) (\<lambda>w2.
        Ok (w2, List.map_filter
                  (\<lambda>c. case c of Inl _ \<Rightarrow> None | Inr es \<Rightarrow> Some (handle_ingest_client T U path strict es))
                  incoming)))"

section \<open>The publisher thread as an event loop\<close>

fun client_msgs :: "'t time_api \<Rightarrow> (string \<Rightarrow> string) \<Rightarrow> string \<Rightarrow> 't client_event \<Rightarrow> string list" where
  "client_msgs T U path ClientError = []"
| "client_msgs T U path (ClientLine line now) =
     (case parse_tsv_line T line of
        Inr (Some frame) \<Rightarrow> [to_tsv_line T frame now @ [LF]]
      | Inr None \<Rightarrow> []
      | Inl e \<Rightarrow> (case parse_error_frame now path line (debug_parse_error U e) of
                   None \<Rightarrow> []
                 | Some f \<Rightarrow> [to_tsv_line T f now @ [LF]]))"

fun client_halts :: "'t time_api \<Rightarrow> bool \<Rightarrow> 't client_event \<Rightarrow> bool" where
  "client_halts T strict ClientError = True"
| "client_halts T strict (ClientLine line now) =
     ((\<exists>e. parse_tsv_line T line = Inl e) \<and> (strict \<or> clip_raw line = None))"

lemma parse_error_frame_None_iff: "parse_error_frame now path raw err = None \<longleftrightarrow> clip_raw raw = None"
  by (auto simp: parse_error_frame_def Let_def split: option.splits)

interpretation ic: event_loop "client_msgs T U path" "client_halts T strict" "ingest_lines T U path strict"
  for T U path strict
proof
  fix e es
  show "ingest_lines T U path strict (e # es) =
    client_msgs T U path e @ (if client_halts T strict e then [] else ingest_lines T U path strict es)"
    by (cases e) (auto simp: parse_error_frame_def Let_def split: sum.splits option.splits)
qed simp

section \<open>What is sent\<close>

fun clock_ok :: "'t time_api \<Rightarrow> 't client_event \<Rightarrow> bool" where
  "clock_ok T ClientError = True"
| "clock_ok T (ClientLine line now) = (format_rfc3339 T now \<noteq> None)"

lemma tab_free_parsed: "parse_tsv_line T line = Ok (Some f) \<Longrightarrow> tab_free f"
  by (auto dest!: clean_parsed_frame simp: clean_frame_def clean_field_def tab_free_def)

lemma tab_free_error_frame: "parse_error_frame now path raw err = Some f \<Longrightarrow> tab_free f \<and> hf_ts f = Some now"
  by (auto simp: parse_error_frame_def Let_def tab_free_def split: option.splits)

lemma client_msgs_cases:
  assumes "m \<in> set (client_msgs T U path (ClientLine line now))"
  obtains (frame) f where "parse_tsv_line T line = Ok (Some f)" and "m = to_tsv_line T f now @ [LF]"
    | (error) f err where "parse_error_frame now path line err = Some f"
      and "m = to_tsv_line T f now @ [LF]"
proof (cases "parse_tsv_line T line")
  case (Inl e)
  with assms error show thesis
    by (cases "parse_error_frame now path line (debug_parse_error U e)") auto
next
  case (Inr v)
  with assms frame show thesis by (cases v) auto
qed

lemma client_msgs_parse:
  assumes "rfc3339_ok T" and "reformats T" and "clock_ok T e" and "m \<in> set (client_msgs T U path e)"
  shows "\<exists>f. parse_tsv_line T m = Ok (Some f)"
proof (cases e)
  case (ClientLine line now)
  with assms(3) have now: "format_rfc3339 T now \<noteq> None" by simp
  from assms(4) [unfolded ClientLine] show ?thesis
  proof (cases rule: client_msgs_cases)
    case (frame f)
    from parsed_stamp_formats [OF assms(2) now frame(1)] obtain s where
      "format_rfc3339 T (stamp f now) = Some s" ..
    from parse_emitted [OF assms(1) tab_free_parsed [OF frame(1)] this] frame(2) show ?thesis by simp
  next
    case (error f err)
    from tab_free_error_frame [OF error(1)] have f: "tab_free f" "stamp f now = now"
      by (simp_all add: stamp_def)
    from now obtain s where "format_rfc3339 T (stamp f now) = Some s" using f by auto
    from parse_emitted [OF assms(1) f(1) this] error(2) show ?thesis by simp
  qed
qed (use assms in simp)

lemma ingest_lines_parse:
  assumes "rfc3339_ok T" and "reformats T" and "list_all (clock_ok T) es"
    and "m \<in> set (ingest_lines T U path strict es)"
  shows "\<exists>f. parse_tsv_line T m = Ok (Some f)"
proof -
  from assms(4) have "m \<in> set (concat (map (client_msgs T U path) (until_stop (client_halts T strict) es)))"
    by (simp only: ic.run_concat)
  then obtain e where e: "e \<in> set (until_stop (client_halts T strict) es)"
    "m \<in> set (client_msgs T U path e)"
    unfolding set_concat set_map by blast
  have "set (until_stop (client_halts T strict) es) \<subseteq> set es"
    by (rule set_mono_prefix [OF prefix_until_stop])
  with e(1) assms(3) have "clock_ok T e" unfolding list_all_iff by blast
  then show ?thesis using e(2) by (rule client_msgs_parse [OF assms(1,2)])
qed

section \<open>The error report\<close>

lemma error_frame_kv:
  assumes "clip_raw raw = Some c" and "parse_error_frame now path raw err = Some f"
  shows "hf_kv f = [(''error'', err), (''ingest_path'', path), (''raw'', c)]"
proof -
  have "bm_insert ''raw'' c (bm_insert ''error'' err (bm_insert ''ingest_path'' path [])) =
      [(''error'', err), (''ingest_path'', path), (''raw'', c)]"
    by code_simp
  with assms show ?thesis by (auto simp: parse_error_frame_def Let_def)
qed

lemma count_list_entry:
  "c \<notin> set k \<Longrightarrow> c \<noteq> CHR ''='' \<Longrightarrow> c \<notin> set ''true'' \<Longrightarrow>
     count_list (kv_entry_str (k, v)) c = count_list v c"
  by (auto simp: kv_entry_str_def count_notin)

lemma error_frame_TABs:
  assumes "clip_raw raw = Some c" and "parse_error_frame now path raw err = Some f"
  shows "count_list (serialize_kv_bag (hf_kv f)) TAB =
    count_list err TAB + count_list path TAB + count_list c TAB"
  by (simp add: error_frame_kv [OF assms] serialize_kv_bag_def count_list_entry)

section \<open>Properties\<close>

fun client_line :: "string \<times> 't \<Rightarrow> 't client_event" where
  "client_line (line, now) = ClientLine line now"

lemma length_client_msgs:
  assumes "clip_raw line \<noteq> None"
  shows "length (client_msgs T U path (ClientLine line now)) = (if ignorable line then 0 else 1)"
proof (cases "parse_tsv_line T line")
  case (Inl e)
  then have "\<not> ignorable line" by (auto simp: parse_tsv_line_cases)
  moreover obtain f where "parse_error_frame now path line (debug_parse_error U e) = Some f"
    using assms parse_error_frame_None_iff by (metis not_None_eq)
  ultimately show ?thesis using Inl by simp
next
  case (Inr v)
  then have "ignorable line \<longleftrightarrow> v = None"
    by (cases "parse_ts_column T (trim (columns line ! 0))")
      (auto simp: parse_tsv_line_cases split: if_splits)
  with Inr show ?thesis by (cases v) simp_all
qed

lemma length_ingest_lines:
  assumes "list_all (\<lambda>(line, _). clip_raw line \<noteq> None) ls"
  shows "length (ingest_lines T U path False (map client_line ls)) =
    length (filter (\<lambda>(line, _). \<not> ignorable line) ls)"
  using assms
proof (induction ls)
  case (Cons l ls)
  obtain line now where l: "l = (line, now)" by force
  from Cons have h: "\<not> client_halts T False (ClientLine line now)"
    and n: "length (client_msgs T U path (ClientLine line now)) = (if ignorable line then 0 else 1)"
    using length_client_msgs [of line T U path now] by (auto simp: l)
  with Cons show ?case
    unfolding list.map l client_line.simps ic.run_Cons length_append n if_not_P [OF h] by simp
qed simp

text \<open>
  C18: everything a publisher's thread sends to the spine is a line that reads back as a
  frame, in both modes. Without \<open>--strict\<close>, and as long as no line that is clipped has a
  character across byte 240, there is exactly one message for each line that is neither blank
  nor a comment: a forwarded frame or an error report.
\<close>

theorem ingest_forwards:
  assumes "rfc3339_ok T" and "reformats T" and "list_all (\<lambda>(_, now). format_rfc3339 T now \<noteq> None) ls"
  shows "list_all (\<lambda>m. \<exists>f. parse_tsv_line T m = Ok (Some f))
           (snd (handle_ingest_client T U path strict (map client_line ls)))
    \<and> (\<not> strict \<and> list_all (\<lambda>(line, _). clip_raw line \<noteq> None) ls \<longrightarrow>
         length (snd (handle_ingest_client T U path strict (map client_line ls))) =
         length (filter (\<lambda>(line, _). \<not> ignorable line) ls))"
proof -
  have clocks: "list_all (clock_ok T) (map client_line ls)"
    using assms(3) by (induction ls) auto
  have "list_all (\<lambda>m. \<exists>f. parse_tsv_line T m = Ok (Some f)) (ingest_lines T U path strict (map client_line ls))"
    unfolding list_all_iff using ingest_lines_parse [OF assms(1,2) clocks] by blast
  then show ?thesis
    using length_ingest_lines [of ls T U path] by (simp add: handle_ingest_client_def)
qed

theorem ingest_forwards_witness:
  "length (snd (handle_ingest_client dec_time (\<lambda>s. s) ''/tmp/in'' False
      (map client_line [(sample_line, 5), (''# note'', 6), (''broken'', 7)]))) = 2"
proof -
  let ?ls = "[(sample_line, 5), (''# note'', 6), (''broken'', 7)] :: (string \<times> int) list"
  have h: "list_all (\<lambda>(_, now). format_rfc3339 dec_time now \<noteq> None) ?ls"
    "list_all (\<lambda>(line, _). clip_raw line \<noteq> None) ?ls"
    "length (filter (\<lambda>(line, _). \<not> ignorable line) ?ls) = 2"
    by code_simp+
  from ingest_forwards [OF dec_time_ok reformats_dec_time h(1),
      THEN conjunct2, THEN mp, OF conjI [OF not_False_eq_True [THEN eqTrueE] h(2)]] h(3)
  show ?thesis by (simp only:)
qed



text \<open>
  C34: clipping panics exactly when a line is longer than 240 bytes and byte 240 continues a
  character. If such a line does not parse, the thread dies there, even without
  \<open>--strict\<close>: no report of the line and nothing of what the publisher sends after it
  reaches the spine.
\<close>

theorem ingest_clip_panics:
  assumes "parse_tsv_line T line = Err e" and "240 < length line" and "is_cont (line ! 240)"
  shows "clip_raw line = None
    \<and> handle_ingest_client T U path strict (us @ ClientLine line now # vs) =
        handle_ingest_client T U path strict us"
proof -
  have clip: "clip_raw line = None"
    using assms(2,3) by (simp add: clip_raw_def truncate_str_def is_char_boundary_def)
  then have "parse_error_frame now path line (debug_parse_error U e) = None"
    by (simp add: parse_error_frame_None_iff)
  with assms(1) clip have "client_halts T strict (ClientLine line now)"
    "client_msgs T U path (ClientLine line now) = []"
    by simp_all
  from ic.run_silent_stop [OF this] clip show ?thesis
    by (simp add: handle_ingest_client_def)
qed

definition long_line :: string where
  "long_line = CHR ''x'' # concat (replicate 120 [CHR 0xC3, CHR 0xA9])"

theorem ingest_clip_panics_witness:
  "handle_ingest_client dec_time (\<lambda>s. s) ''/tmp/in'' False [ClientLine long_line 1, ClientLine sample_line 2] =
     handle_ingest_client dec_time (\<lambda>s. s) ''/tmp/in'' False []"
proof -
  have h: "parse_tsv_line dec_time long_line = Err (TooFewColumns 1)" "240 < length long_line"
    "is_cont (long_line ! 240)"
    by code_simp+
  from ingest_clip_panics [OF h, of "\<lambda>s. s" "''/tmp/in''" False "[]" 1 "[ClientLine sample_line 2]"] show ?thesis
    by simp
qed

end
