(* ===== verification/Hawkd_Backoff.thy ===== *)
theory Hawkd_Backoff
  imports Hawk_Prelude "HOL-Library.Word"
begin

text \<open>
  The retry delay both watchers of the daemon keep: 250 ms at first, doubled after a sleep up
  to 15 s, kept in a \<open>u64\<close>. A watcher satisfies the contract of the locale when each
  attempt first may reset the delay and then sleeps for it; its lemmas give every delay as a
  function of the number of attempts since the last reset, so no doubling ever wraps.
\<close>

type_synonym ms = "64 word"

definition first_backoff :: ms where
  "first_backoff = 250"

definition next_backoff :: "ms \<Rightarrow> ms" where
  "next_backoff b = min (b * 2) 15000"

text \<open>What a watcher does, in order: messages to the spine and sleeps.\<close>

datatype watch_act = Sent string | Slept ms

fun slept :: "watch_act list \<Rightarrow> ms list" where
  "slept [] = []"
| "slept (Sent m # as) = slept as"
| "slept (Slept b # as) = b # slept as"

fun sent :: "watch_act list \<Rightarrow> string list" where
  "sent [] = []"
| "sent (Sent m # as) = m # sent as"
| "sent (Slept b # as) = sent as"

lemma slept_append [simp]: "slept (xs @ ys) = slept xs @ slept ys"
  by (induction xs rule: slept.induct) auto

lemma sent_append [simp]: "sent (xs @ ys) = sent xs @ sent ys"
  by (induction xs rule: sent.induct) auto

lemma slept_map_Sent [simp]: "slept (map Sent ms) = []"
  by (induction ms) auto

lemma sent_map_Sent [simp]: "sent (map Sent ms) = ms"
  by (induction ms) auto

definition delay :: "nat \<Rightarrow> nat" where
  "delay k = min 15000 (250 * 2 ^ k)"

lemma delay_bounds: "250 \<le> delay k" "delay k \<le> 15000"
  by (simp_all add: delay_def)

lemma delay_Suc: "delay (Suc k) = min 15000 (2 * delay k)"
  by (simp add: delay_def)

lemma unat_next_backoff:
  assumes "unat b \<le> 15000"
  shows "unat (next_backoff b) = min 15000 (2 * unat b)"
proof -
  have "unat (b * 2) = unat b * 2"
    using assms by (subst unat_mult_lem [THEN iffD1]) simp_all
  then show ?thesis
    by (simp add: next_backoff_def min_def word_le_nat_alt)
qed

lemma next_backoff_delay:
  assumes "unat b = delay k"
  shows "unat (next_backoff b) = delay (Suc k)"
  using assms delay_bounds(2) [of k] by (simp add: unat_next_backoff delay_Suc)

lemma unat_first_backoff: "unat first_backoff = delay 0"
  by (simp add: first_backoff_def delay_def)

text \<open>For each attempt the number of attempts since the last reset.\<close>

fun since_reset :: "('a \<Rightarrow> bool) \<Rightarrow> nat \<Rightarrow> 'a list \<Rightarrow> nat list" where
  "since_reset resets k [] = []"
| "since_reset resets k (x # xs) = (let j = if resets x then 0 else k in j # since_reset resets (Suc j) xs)"

locale backoff_loop =
  fixes resets :: "'a \<Rightarrow> bool" and sleeps :: "ms \<Rightarrow> 'a list \<Rightarrow> ms list"
  assumes sleeps_Nil: "sleeps b [] = []"
    and sleeps_Cons: "sleeps b (x # xs) =
      (let b1 = if resets x then first_backoff else b in b1 # sleeps (next_backoff b1) xs)"
begin

lemma sleeps_exact: "unat b = delay k \<Longrightarrow> map unat (sleeps b xs) = map delay (since_reset resets k xs)"
proof (induction xs arbitrary: b k)
  case (Cons x xs)
  define b1 j where "b1 = (if resets x then first_backoff else b)" and "j = (if resets x then 0 else k)"
  have "unat b1 = delay j"
    using Cons.prems unat_first_backoff by (simp add: b1_def j_def)
  with Cons.IH [OF next_backoff_delay [OF this]] show ?case
    by (simp add: sleeps_Cons Let_def flip: b1_def j_def)
qed (simp add: sleeps_Nil)

lemma sleeps_bounded:
  assumes "unat b = delay k" and "s \<in> set (sleeps b xs)"
  shows "250 \<le> unat s \<and> unat s \<le> 15000"
proof -
  from assms(2) have "unat s \<in> set (map unat (sleeps b xs))" by simp
  with sleeps_exact [OF assms(1), of xs] show ?thesis
    using delay_bounds by auto
qed

lemma length_sleeps: "length (sleeps b xs) = length xs"
  by (induction xs arbitrary: b) (simp_all add: sleeps_Nil sleeps_Cons Let_def)

lemma since_reset_none: "\<forall>x \<in> set xs. \<not> resets x \<Longrightarrow> since_reset resets k xs = [k..<k + length xs]"
  by (induction xs arbitrary: k) (simp_all add: upt_conv_Cons del: upt_Suc)

lemma since_reset_all: "\<forall>x \<in> set xs. resets x \<Longrightarrow> since_reset resets k xs = replicate (length xs) 0"
  by (induction xs arbitrary: k) simp_all

end

end
