(* ===== verification/Hawkd_Systemd.thy ===== *)
theory Hawkd_Systemd
  imports Frame_Emit Hawkd_Backoff
begin

text \<open>
  The systemd watcher of the daemon (\<open>crates/hawkd/src/systemd.rs\<close>): unit specs, one
  attempt at watching a unit over D-Bus, the frames it emits and the retry loop. What the
  bus answers during an attempt is data of the model: one result per call the code makes,
  with the text of the error as \<open>to_string\<close> gives it.
\<close>

record unit_spec =
  us_unit :: string
  us_id :: string

record systemd_cfg =
  sc_ttl_stale_s :: int
  sc_ttl_dead_s :: int

definition parse_unit_spec :: "string \<Rightarrow> string + unit_spec" where
  "parse_unit_spec s =
     (let parts = split_on CHR '','' s;
          un = (case parts of [] \<Rightarrow> [] | v # _ \<Rightarrow> trim v)
      in if un = [] then Err ''unit spec missing unit name''
         else Ok \<lparr>us_unit = un,
                  us_id = (case parts of
                             _ # v # _ \<Rightarrow> if trim v \<noteq> [] then trim v else un
                           | _ \<Rightarrow> un)\<rparr>)"

section \<open>Frames\<close>

definition map_systemd_level :: "string \<Rightarrow> string \<Rightarrow> string \<Rightarrow> level" where
  "map_systemd_level active sub load =
     (let a = to_ascii_lowercase active;
          s = to_ascii_lowercase sub;
          l = to_ascii_lowercase load
      in if l = ''not-found'' then LFail
         else if a = ''failed'' \<or> s = ''failed'' then LFail
         else if a = ''active'' then LOk
         else if a = ''activating'' \<or> a = ''reloading'' then LInfo
         else if a = ''deactivating'' \<or> a = ''inactive'' then LWarn
         else LUnknown)"

text \<open>The properties of the unit as read for one snapshot.\<close>

record 't unit_props =
  up_now :: 't
  up_active :: "string + string"
  up_sub :: "string + string"
  up_load :: "string + string"
  up_desc :: "string + string"

definition snapshot_frame ::
  "unit_spec \<Rightarrow> systemd_cfg \<Rightarrow> 't \<Rightarrow> string \<Rightarrow> string \<Rightarrow> string \<Rightarrow> string \<Rightarrow> 't hawk_frame" where
  "snapshot_frame spec cfg now active sub load desc =
     (let kv = bm_insert ''unit'' (us_unit spec) [];
          kv = bm_insert ''active'' active kv;
          kv = bm_insert ''sub'' sub kv;
          kv = bm_insert ''load'' load kv;
          kv = (if desc \<noteq> [] then bm_insert ''desc'' desc kv else kv);
          kv = bm_insert ''ttl_stale_s'' (i64_to_string (sc_ttl_stale_s cfg)) kv;
          kv = bm_insert ''ttl_dead_s'' (i64_to_string (sc_ttl_dead_s cfg)) kv
      in \<lparr>hf_ts = Some now, hf_kind = ''HEALTH'', hf_scope = ''systemd'', hf_id = us_id spec,
          hf_level = map_systemd_level active sub load, hf_msg = active @ '':'' @ sub, hf_kv = kv\<rparr>)"

text \<open>The line sent, or the error.\<close>

definition emit_snapshot_frame ::
  "'t time_api \<Rightarrow> unit_spec \<Rightarrow> systemd_cfg \<Rightarrow> 't unit_props \<Rightarrow> string + string" where
  "emit_snapshot_frame T spec cfg u =
     and_then (map_err (\<lambda>e. ''ActiveState: '' @ e) (up_active u)) (\<lambda>active.
     and_then (map_err (\<lambda>e. ''SubState: '' @ e) (up_sub u)) (\<lambda>sub.
     and_then (map_err (\<lambda>e. ''LoadState: '' @ e) (up_load u)) (\<lambda>load.
       let desc = (case up_desc u of Inr d \<Rightarrow> d | Inl _ \<Rightarrow> []);
           frame = snapshot_frame spec cfg (up_now u) active sub load desc
       in Ok (to_tsv_line T frame (up_now u) @ [LF]))))"

definition systemd_error_frame :: "unit_spec \<Rightarrow> systemd_cfg \<Rightarrow> 't \<Rightarrow> string \<Rightarrow> string \<Rightarrow> 't hawk_frame" where
  "systemd_error_frame spec cfg now msg err =
     (let kv = bm_insert ''unit'' (us_unit spec) [];
          kv = bm_insert ''error'' err kv;
          kv = bm_insert ''ttl_stale_s'' (i64_to_string (sc_ttl_stale_s cfg)) kv;
          kv = bm_insert ''ttl_dead_s'' (i64_to_string (sc_ttl_dead_s cfg)) kv
      in \<lparr>hf_ts = Some now, hf_kind = ''HEALTH'', hf_scope = ''systemd'', hf_id = us_id spec,
          hf_level = LFail, hf_msg = msg, hf_kv = kv\<rparr>)"

definition systemd_emit_error :: "'t time_api \<Rightarrow> unit_spec \<Rightarrow> systemd_cfg \<Rightarrow> 't \<Rightarrow> string \<Rightarrow> string \<Rightarrow> string" where
  "systemd_emit_error T spec cfg now msg err =
     to_tsv_line T (systemd_error_frame spec cfg now msg err) now @ [LF]"

section \<open>One attempt\<close>

record 't unit_attempt =
  ua_system :: "string + unit"
  ua_manager :: "string + unit"
  ua_get_unit :: "string + string"
  ua_unit_path :: "string + unit"
  ua_unit_build :: "string + unit"
  ua_props_destination :: "string + unit"
  ua_props_path :: "string + unit"
  ua_props_build :: "string + unit"
  ua_first :: "'t unit_props"
  ua_receive :: "string + unit"
  ua_signals :: "'t unit_props list"
  ua_error_now :: 't

definition unit_setup :: "unit_spec \<Rightarrow> 't unit_attempt \<Rightarrow> string + unit" where
  "unit_setup spec a =
     and_then (map_err (\<lambda>e. ''connect system bus: '' @ e) (ua_system a)) (\<lambda>_.
     and_then (map_err (\<lambda>e. ''manager proxy: '' @ e) (ua_manager a)) (\<lambda>_.
     and_then (map_err (\<lambda>e. ''GetUnit '' @ us_unit spec @ '': '' @ e) (ua_get_unit a)) (\<lambda>_.
     and_then (map_err (\<lambda>e. ''unit proxy builder: '' @ e) (ua_unit_path a)) (\<lambda>_.
     and_then (map_err (\<lambda>e. ''unit proxy build: '' @ e) (ua_unit_build a)) (\<lambda>_.
     and_then (map_err (\<lambda>e. ''properties destination: '' @ e) (ua_props_destination a)) (\<lambda>_.
     and_then (map_err (\<lambda>e. ''properties path: '' @ e) (ua_props_path a)) (\<lambda>_.
       map_err (\<lambda>e. ''properties proxy: '' @ e) (ua_props_build a))))))))"

text \<open>The loop over \<open>PropertiesChanged\<close> signals, until the stream ends or a read fails.\<close>

fun signal_loop ::
  "'t time_api \<Rightarrow> unit_spec \<Rightarrow> systemd_cfg \<Rightarrow> 't unit_props list \<Rightarrow> string list \<times> (string + unit)" where
  "signal_loop T spec cfg [] = ([], Err ''properties stream ended'')"
| "signal_loop T spec cfg (u # us) =
     (case emit_snapshot_frame T spec cfg u of
        Inl e \<Rightarrow> ([], Err e)
      | Inr m \<Rightarrow> (let (ms, r) = signal_loop T spec cfg us in (m # ms, r)))"

text \<open>The lines sent during the attempt and its result.\<close>

definition watch_one_unit_once ::
  "'t time_api \<Rightarrow> unit_spec \<Rightarrow> systemd_cfg \<Rightarrow> 't unit_attempt \<Rightarrow> string list \<times> (string + unit)" where
  "watch_one_unit_once T spec cfg a =
     (case unit_setup spec a of
        Inl e \<Rightarrow> ([], Err e)
      | Inr _ \<Rightarrow>
          (case emit_snapshot_frame T spec cfg (ua_first a) of
             Inl e \<Rightarrow> ([], Err e)
           | Inr m \<Rightarrow>
               (case map_err (\<lambda>e. ''receive PropertiesChanged: '' @ e) (ua_receive a) of
                  Inl e \<Rightarrow> ([m], Err e)
                | Inr _ \<Rightarrow> (let (ms, r) = signal_loop T spec cfg (ua_signals a) in (m # ms, r)))))"

section \<open>The retry loop\<close>

text \<open>The loop never ends; what it does over a finite number of attempts is a list.\<close>

fun watch_one_unit_from ::
  "'t time_api \<Rightarrow> unit_spec \<Rightarrow> systemd_cfg \<Rightarrow> ms \<Rightarrow> 't unit_attempt list \<Rightarrow> watch_act list" where
  "watch_one_unit_from T spec cfg backoff [] = []"
| "watch_one_unit_from T spec cfg backoff (a # as) =
     (case watch_one_unit_once T spec cfg a of
        (ms, Inr _) \<Rightarrow>
          map Sent ms @ Slept 250 # watch_one_unit_from T spec cfg 250 as
      | (ms, Inl err) \<Rightarrow>
          map Sent ms
          @ Sent (systemd_emit_error T spec cfg (ua_error_now a) ''systemd watch failed'' err)
          # Slept backoff # watch_one_unit_from T spec cfg (min (backoff * 2) 15000) as)"

definition watch_one_unit ::
  "'t time_api \<Rightarrow> unit_spec \<Rightarrow> systemd_cfg \<Rightarrow> 't unit_attempt list \<Rightarrow> watch_act list" where
  "watch_one_unit T spec cfg as = watch_one_unit_from T spec cfg 250 as"

text \<open>One task per unit; \<open>bus\<close> gives the attempts of each.\<close>

definition spawn_unit_watchers ::
  "'t time_api \<Rightarrow> (unit_spec \<Rightarrow> 't unit_attempt list) \<Rightarrow> unit_spec list \<Rightarrow> systemd_cfg \<Rightarrow> watch_act list list" where
  "spawn_unit_watchers T bus units cfg =
     (if units = [] then [] else map (\<lambda>spec. watch_one_unit T spec cfg (bus spec)) units)"

section \<open>An attempt never succeeds\<close>

lemma signal_loop_fails: "\<exists>e. snd (signal_loop T spec cfg us) = Err e"
  by (induction us) (auto simp: Let_def split: sum.splits prod.splits)

lemma watch_one_unit_once_fails: "\<exists>e. snd (watch_one_unit_once T spec cfg a) = Err e"
  using signal_loop_fails [of T spec cfg "ua_signals a"]
  by (auto simp: watch_one_unit_once_def Let_def split: sum.splits prod.splits)

definition attempt_error :: "'t time_api \<Rightarrow> unit_spec \<Rightarrow> systemd_cfg \<Rightarrow> 't unit_attempt \<Rightarrow> string" where
  "attempt_error T spec cfg a = projl (snd (watch_one_unit_once T spec cfg a))"

lemma watch_step:
  "watch_one_unit_from T spec cfg b (a # as) =
     map Sent (fst (watch_one_unit_once T spec cfg a))
     @ Sent (systemd_emit_error T spec cfg (ua_error_now a) ''systemd watch failed'' (attempt_error T spec cfg a))
     # Slept b # watch_one_unit_from T spec cfg (next_backoff b) as"
proof -
  obtain ms e where "watch_one_unit_once T spec cfg a = (ms, Err e)"
    using watch_one_unit_once_fails [of T spec cfg a] by (cases "watch_one_unit_once T spec cfg a") auto
  then show ?thesis by (simp add: attempt_error_def next_backoff_def)
qed

interpretation sw: backoff_loop "\<lambda>_. False" "\<lambda>b as. slept (watch_one_unit_from T spec cfg b as)"
  for T spec cfg
  by unfold_locales (simp_all only: watch_step slept_append slept_map_Sent slept.simps
      watch_one_unit_from.simps(1) if_False Let_def append_Nil)

section \<open>Time-to-live values arrive\<close>

lemma snapshot_frame_kv:
  "hf_kv (snapshot_frame spec cfg now active sub load desc) =
     [(''active'', active)] @ (if desc \<noteq> [] then [(''desc'', desc)] else [])
     @ [(''load'', load), (''sub'', sub), (''ttl_dead_s'', i64_to_string (sc_ttl_dead_s cfg)),
        (''ttl_stale_s'', i64_to_string (sc_ttl_stale_s cfg)), (''unit'', us_unit spec)]"
proof -
  have "bm_insert ''ttl_dead_s'' d (bm_insert ''ttl_stale_s'' s (bm_insert ''desc'' e (bm_insert ''load'' l
      (bm_insert ''sub'' b (bm_insert ''active'' a [(''unit'', u)]))))) =
    [(''active'', a), (''desc'', e), (''load'', l), (''sub'', b), (''ttl_dead_s'', d),
     (''ttl_stale_s'', s), (''unit'', u)]" for d s e l b a u :: string
    by code_simp
  moreover have "bm_insert ''ttl_dead_s'' d (bm_insert ''ttl_stale_s'' s (bm_insert ''load'' l
      (bm_insert ''sub'' b (bm_insert ''active'' a [(''unit'', u)])))) =
    [(''active'', a), (''load'', l), (''sub'', b), (''ttl_dead_s'', d),
     (''ttl_stale_s'', s), (''unit'', u)]" for d s l b a u :: string
    by code_simp
  ultimately show ?thesis
    by (simp only: snapshot_frame_def Let_def hawk_frame.select_convs bm_insert.simps(1) append_Cons
        append_Nil if_True if_False split: if_splits) simp
qed

lemma systemd_error_frame_kv:
  "hf_kv (systemd_error_frame spec cfg now msg err) =
     [(''error'', err), (''ttl_dead_s'', i64_to_string (sc_ttl_dead_s cfg)),
      (''ttl_stale_s'', i64_to_string (sc_ttl_stale_s cfg)), (''unit'', us_unit spec)]"
proof -
  have "bm_insert ''ttl_dead_s'' d (bm_insert ''ttl_stale_s'' s (bm_insert ''error'' e [(''unit'', u)])) =
    [(''error'', e), (''ttl_dead_s'', d), (''ttl_stale_s'', s), (''unit'', u)]" for d s e u :: string
    by code_simp
  then show ?thesis
    by (simp only: systemd_error_frame_def Let_def hawk_frame.select_convs bm_insert.simps(1))
qed

text \<open>A unit name that the bag can carry.\<close>

definition plain_unit :: "string \<Rightarrow> bool" where
  "plain_unit u \<longleftrightarrow> clean_field u \<and> CHR '';'' \<notin> set u"

lemma clean_unit_entry: "plain_unit u \<Longrightarrow> clean_entry (''unit'', u)"
proof -
  have "clean_field ''unit''" by code_simp
  then show "plain_unit u \<Longrightarrow> ?thesis" by (simp add: plain_unit_def clean_entry_def)
qed

definition tab_free_props :: "string list \<Rightarrow> bool" where
  "tab_free_props ss \<longleftrightarrow> list_all (\<lambda>s. TAB \<notin> set s) ss"

lemma snapshot_ttl:
  assumes "plain_unit (us_unit spec)" and "tab_free_props [active, sub, load, desc]"
  shows "bm_get (hf_kv (read_back t (snapshot_frame spec cfg now active sub load desc))) ''ttl_dead_s'' =
      Some (i64_to_string (sc_ttl_dead_s cfg))"
    "bm_get (hf_kv (read_back t (snapshot_frame spec cfg now active sub load desc))) ''ttl_stale_s'' =
      Some (i64_to_string (sc_ttl_stale_s cfg))"
proof -
  let ?f = "snapshot_frame spec cfg now active sub load desc"
  have kv: "hf_kv ?f = ([(''active'', active)] @ (if desc \<noteq> [] then [(''desc'', desc)] else [])
     @ [(''load'', load), (''sub'', sub)]) @ [(''ttl_dead_s'', i64_to_string (sc_ttl_dead_s cfg)),
        (''ttl_stale_s'', i64_to_string (sc_ttl_stale_s cfg))] @ [(''unit'', us_unit spec)]"
    unfolding snapshot_frame_kv by simp
  have first: "clean_field (fst (hd (hf_kv ?f)))"
    unfolding kv by simp code_simp
  have tabs: "\<forall>e \<in> set (hf_kv ?f). TAB \<notin> set (fst e) \<and> TAB \<notin> set (snd e)"
    using assms TAB_i64 unfolding kv
    by (auto simp: plain_unit_def clean_field_def tab_free_props_def)
  show "bm_get (hf_kv (read_back t ?f)) ''ttl_dead_s'' = Some (i64_to_string (sc_ttl_dead_s cfg))"
    "bm_get (hf_kv (read_back t ?f)) ''ttl_stale_s'' = Some (i64_to_string (sc_ttl_stale_s cfg))"
    by (rule ttl_read_back [OF kv _ _ _ first tabs], use clean_unit_entry [OF assms(1)] in simp_all)+
qed

lemma systemd_error_ttl:
  assumes "plain_unit (us_unit spec)" and "TAB \<notin> set err"
  shows "bm_get (hf_kv (read_back t (systemd_error_frame spec cfg now msg err))) ''ttl_dead_s'' =
      Some (i64_to_string (sc_ttl_dead_s cfg))"
    "bm_get (hf_kv (read_back t (systemd_error_frame spec cfg now msg err))) ''ttl_stale_s'' =
      Some (i64_to_string (sc_ttl_stale_s cfg))"
proof -
  let ?f = "systemd_error_frame spec cfg now msg err"
  have kv: "hf_kv ?f = [(''error'', err)] @ [(''ttl_dead_s'', i64_to_string (sc_ttl_dead_s cfg)),
      (''ttl_stale_s'', i64_to_string (sc_ttl_stale_s cfg))] @ [(''unit'', us_unit spec)]"
    unfolding systemd_error_frame_kv by simp
  have first: "clean_field (fst (hd (hf_kv ?f)))"
    unfolding kv by simp code_simp
  have tabs: "\<forall>e \<in> set (hf_kv ?f). TAB \<notin> set (fst e) \<and> TAB \<notin> set (snd e)"
    using assms TAB_i64 unfolding kv by (auto simp: plain_unit_def clean_field_def)
  show "bm_get (hf_kv (read_back t ?f)) ''ttl_dead_s'' = Some (i64_to_string (sc_ttl_dead_s cfg))"
    "bm_get (hf_kv (read_back t ?f)) ''ttl_stale_s'' = Some (i64_to_string (sc_ttl_stale_s cfg))"
    by (rule ttl_read_back [OF kv _ _ _ first tabs], use clean_unit_entry [OF assms(1)] in simp_all)+
qed

section \<open>Properties\<close>

text \<open>
  C35: the delays of the systemd watcher over any attempts are 250 ms doubled each time up to
  15 s: an attempt never succeeds, so the reset of the delay is dead code and even a watch
  that ran for days is retried after the delay its number gives. Each attempt ends with one
  error frame, after the snapshots it sent.
\<close>

theorem systemd_backoff_exact:
  "map unat (slept (watch_one_unit T spec cfg as)) = map (\<lambda>k. min 15000 (250 * 2 ^ k)) [0..<length as]
   \<and> sent (watch_one_unit T spec cfg as) =
       concat (map (\<lambda>a. fst (watch_one_unit_once T spec cfg a)
         @ [systemd_emit_error T spec cfg (ua_error_now a) ''systemd watch failed''
              (projl (snd (watch_one_unit_once T spec cfg a)))]) as)"
proof -
  have "unat (250 :: ms) = delay 0" by (simp add: delay_def)
  from sw.sleeps_exact [OF this, of T spec cfg as] sw.since_reset_none [of as 0]
  have "map unat (slept (watch_one_unit T spec cfg as)) = map delay [0..<length as]"
    by (simp add: watch_one_unit_def)
  moreover have "sent (watch_one_unit_from T spec cfg b as) =
       concat (map (\<lambda>a. fst (watch_one_unit_once T spec cfg a)
         @ [systemd_emit_error T spec cfg (ua_error_now a) ''systemd watch failed'' (attempt_error T spec cfg a)]) as)"
    for b
    by (induction as arbitrary: b) (simp_all only: watch_step watch_one_unit_from.simps(1) sent_append
        sent_map_Sent sent.simps list.map concat.simps append_assoc append_Cons append_Nil)
  ultimately show ?thesis
    by (simp add: watch_one_unit_def attempt_error_def delay_def)
qed

end
