(* ===== verification/Hawkd_Grpc.thy ===== *)
theory Hawkd_Grpc
  imports Frame_Emit Hawkd_Backoff Rust_Debug
begin

text \<open>
  The gRPC health watcher of the daemon (\<open>crates/hawkd/src/grpc_health.rs\<close>): watch
  specs, endpoint URIs, the TLS configuration, status and error frames and the retry loop.
  What \<open>tonic\<close> answers during an attempt is data of the model, and the generated enum of
  serving statuses comes with its conversion and its \<open>Debug\<close> text as parameters.
\<close>

record watch_spec =
  ws_endpoint :: string
  ws_service :: string
  ws_id :: string

datatype grpc_tls_mode = TlsOff | Tls | Mtls

record grpc_tls_files =
  tf_mode :: grpc_tls_mode
  tf_ca_pem :: "string option"
  tf_client_cert_pem :: "string option"
  tf_client_key_pem :: "string option"
  tf_domain_name :: "string option"

record grpc_cfg =
  gc_ttl_stale_s :: int
  gc_ttl_dead_s :: int

datatype serving_status = Unknown | Serving | NotServing | ServiceUnknown

record status_api =
  st_try_from :: "int \<Rightarrow> serving_status option"
  st_debug :: "serving_status \<Rightarrow> string"

section \<open>Watch specs and URIs\<close>

definition part_trim :: "string list \<Rightarrow> nat \<Rightarrow> string option" where
  "part_trim parts i = (if i < length parts then Some (trim (parts ! i)) else None)"

definition default_watch_id :: "string \<Rightarrow> string \<Rightarrow> string" where
  "default_watch_id endpoint service =
     (let base = replace ''https://'' [] (replace ''http://'' [] endpoint);
          base = replace '':'' ''_'' (replace ''/'' ''_'' base)
      in if service = [] then ''grpc.'' @ base
         else ''grpc.'' @ base @ ''.'' @ replace '':'' ''_'' (replace ''/'' ''_'' service))"

definition parse_watch_spec :: "string \<Rightarrow> string + watch_spec" where
  "parse_watch_spec s =
     (let parts = split_on CHR '','' s;
          endpoint = (case part_trim parts 0 of Some v \<Rightarrow> v | None \<Rightarrow> [])
      in if endpoint = [] then Err ''watch spec missing endpoint''
         else
           let service = (case part_trim parts 1 of Some v \<Rightarrow> v | None \<Rightarrow> []);
               wid = (case part_trim parts 2 of
                        Some v \<Rightarrow> if v \<noteq> [] then v else default_watch_id endpoint service
                      | None \<Rightarrow> default_watch_id endpoint service)
           in Ok \<lparr>ws_endpoint = endpoint, ws_service = service, ws_id = wid\<rparr>)"

definition normalize_endpoint_uri :: "string \<Rightarrow> grpc_tls_mode \<Rightarrow> string" where
  "normalize_endpoint_uri raw mode =
     (let s = trim raw in
      if prefix ''http://'' s \<or> prefix ''https://'' s then s
      else (case mode of TlsOff \<Rightarrow> ''http://'' @ s | _ \<Rightarrow> ''https://'' @ s))"

definition derive_host_from_uri :: "string \<Rightarrow> string option" where
  "derive_host_from_uri uri =
     (case split_str ''://'' uri of
        _ # s # _ \<Rightarrow>
          let host_port = hd (split_on CHR ''/'' s);
              host = hd (split_on CHR '':'' host_port)
          in if host = [] then None else Some host
      | _ \<Rightarrow> None)"

section \<open>TLS\<close>

text \<open>The certificate authority, the domain name and the identity given to \<open>ClientTlsConfig\<close>.\<close>

record client_tls =
  ct_ca :: string
  ct_domain :: string
  ct_identity :: "(string \<times> string) option"

definition build_tls_config ::
  "(string \<Rightarrow> string) \<Rightarrow> (string \<Rightarrow> string + string) \<Rightarrow> string \<Rightarrow> grpc_tls_files \<Rightarrow> string + client_tls" where
  "build_tls_config U read uri tls =
     and_then (ok_or ''tls requires --grpc-ca <path>'' (tf_ca_pem tls)) (\<lambda>ca_path.
     and_then (map_err (\<lambda>e. ''read ca pem '' @ debug_str U ca_path @ '': '' @ e) (read ca_path)) (\<lambda>ca.
     and_then (case tf_domain_name tls of
                 Some d \<Rightarrow> Ok d
               | None \<Rightarrow> ok_or ''unable to derive domain name, pass --grpc-domain'' (derive_host_from_uri uri))
       (\<lambda>domain.
       let cfg = \<lparr>ct_ca = ca, ct_domain = domain, ct_identity = None\<rparr> in
       if tf_mode tls = Mtls then
         and_then (ok_or ''mtls requires --grpc-cert <path>'' (tf_client_cert_pem tls)) (\<lambda>cert_path.
         and_then (ok_or ''mtls requires --grpc-key <path>'' (tf_client_key_pem tls)) (\<lambda>key_path.
         and_then (map_err (\<lambda>e. ''read client cert '' @ debug_str U cert_path @ '': '' @ e) (read cert_path)) (\<lambda>cert.
         and_then (map_err (\<lambda>e. ''read client key '' @ debug_str U key_path @ '': '' @ e) (read key_path)) (\<lambda>key.
           Ok (cfg\<lparr>ct_identity := Some (cert, key)\<rparr>)))))
       else Ok cfg)))"

section \<open>Frames\<close>

fun status_level :: "serving_status \<Rightarrow> level \<times> string" where
  "status_level Serving = (LOk, ''SERVING'')"
| "status_level NotServing = (LFail, ''NOT_SERVING'')"
| "status_level ServiceUnknown = (LWarn, ''SERVICE_UNKNOWN'')"
| "status_level Unknown = (LUnknown, ''UNKNOWN'')"

definition status_frame ::
  "status_api \<Rightarrow> watch_spec \<Rightarrow> grpc_cfg \<Rightarrow> 't \<Rightarrow> serving_status \<Rightarrow> 't hawk_frame" where
  "status_frame G spec cfg now st =
     (let (lvl, msg) = status_level st;
          kv = bm_insert ''endpoint'' (ws_endpoint spec) [];
          kv = bm_insert ''service'' (ws_service spec) kv;
          kv = bm_insert ''grpc_status'' (st_debug G st) kv;
          kv = bm_insert ''ttl_stale_s'' (i64_to_string (gc_ttl_stale_s cfg)) kv;
          kv = bm_insert ''ttl_dead_s'' (i64_to_string (gc_ttl_dead_s cfg)) kv
      in \<lparr>hf_ts = Some now, hf_kind = ''HEALTH'', hf_scope = ''grpc'', hf_id = ws_id spec,
          hf_level = lvl, hf_msg = msg, hf_kv = kv\<rparr>)"

text \<open>The clock is read once for the frame and once more for printing it.\<close>

definition emit_status_frame ::
  "'t time_api \<Rightarrow> status_api \<Rightarrow> watch_spec \<Rightarrow> grpc_cfg \<Rightarrow> 't \<times> 't \<Rightarrow> serving_status \<Rightarrow> string" where
  "emit_status_frame T G spec cfg now st = to_tsv_line T (status_frame G spec cfg (fst now) st) (snd now) @ [LF]"

definition grpc_error_frame :: "watch_spec \<Rightarrow> grpc_cfg \<Rightarrow> 't \<Rightarrow> string \<Rightarrow> string \<Rightarrow> 't hawk_frame" where
  "grpc_error_frame spec cfg now msg err =
     (let kv = bm_insert ''endpoint'' (ws_endpoint spec) [];
          kv = bm_insert ''service'' (ws_service spec) kv;
          kv = bm_insert ''error'' err kv;
          kv = bm_insert ''ttl_stale_s'' (i64_to_string (gc_ttl_stale_s cfg)) kv;
          kv = bm_insert ''ttl_dead_s'' (i64_to_string (gc_ttl_dead_s cfg)) kv
      in \<lparr>hf_ts = Some now, hf_kind = ''HEALTH'', hf_scope = ''grpc'', hf_id = ws_id spec,
          hf_level = LFail, hf_msg = msg, hf_kv = kv\<rparr>)"

definition grpc_emit_error ::
  "'t time_api \<Rightarrow> watch_spec \<Rightarrow> grpc_cfg \<Rightarrow> 't \<times> 't \<Rightarrow> string \<Rightarrow> string \<Rightarrow> string" where
  "grpc_emit_error T spec cfg now msg err =
     to_tsv_line T (grpc_error_frame spec cfg (fst now) msg err) (snd now) @ [LF]"

section \<open>One attempt\<close>

text \<open>
  The answers during an attempt: building the endpoint, reading files, applying the TLS
  configuration, connecting, opening the watch for a service, and the items of the stream
  with the clock readings at each.
\<close>

record 't grpc_attempt =
  ga_from_shared :: "string \<Rightarrow> string + unit"
  ga_read :: "string \<Rightarrow> string + string"
  ga_tls_config :: "client_tls \<Rightarrow> string + unit"
  ga_connect :: "string + unit"
  ga_watch :: "string \<Rightarrow> string + unit"
  ga_stream :: "(('t \<times> 't) \<times> (string + int)) list"
  ga_error_now :: "'t \<times> 't"

definition connect_channel ::
  "(string \<Rightarrow> string) \<Rightarrow> watch_spec \<Rightarrow> grpc_tls_files \<Rightarrow> 't grpc_attempt \<Rightarrow> string + unit" where
  "connect_channel U spec tls a =
     (let uri = normalize_endpoint_uri (ws_endpoint spec) (tf_mode tls) in
      and_then (map_err (\<lambda>e. ''bad endpoint uri '' @ uri @ '': '' @ e) (ga_from_shared a uri)) (\<lambda>_.
      and_then (case tf_mode tls of
                  TlsOff \<Rightarrow> Ok ()
                | _ \<Rightarrow> and_then (build_tls_config U (ga_read a) uri tls) (\<lambda>cfg.
                         map_err (\<lambda>e. ''tls_config: '' @ e) (ga_tls_config a cfg))) (\<lambda>_.
        map_err (\<lambda>e. ''connect: '' @ e) (ga_connect a))))"

fun stream_loop ::
  "'t time_api \<Rightarrow> status_api \<Rightarrow> watch_spec \<Rightarrow> grpc_cfg \<Rightarrow> (('t \<times> 't) \<times> (string + int)) list \<Rightarrow> string list" where
  "stream_loop T G spec cfg [] = []"
| "stream_loop T G spec cfg ((now, Inr code) # items) =
     emit_status_frame T G spec cfg now (case st_try_from G code of Some st \<Rightarrow> st | None \<Rightarrow> Unknown)
     # stream_loop T G spec cfg items"
| "stream_loop T G spec cfg ((now, Inl e) # items) = [grpc_emit_error T spec cfg now ''stream error'' e]"

section \<open>The retry loop\<close>

fun watch_one_from ::
  "'t time_api \<Rightarrow> (string \<Rightarrow> string) \<Rightarrow> status_api \<Rightarrow> watch_spec \<Rightarrow> grpc_cfg \<Rightarrow> grpc_tls_files \<Rightarrow> ms
    \<Rightarrow> 't grpc_attempt list \<Rightarrow> watch_act list" where
  "watch_one_from T U G spec cfg tls backoff [] = []"
| "watch_one_from T U G spec cfg tls backoff (a # as) =
     (case connect_channel U spec tls a of
        Inl err \<Rightarrow>
          Sent (grpc_emit_error T spec cfg (ga_error_now a) ''connect failed'' err)
          # Slept backoff # watch_one_from T U G spec cfg tls (min (backoff * 2) 15000) as
      | Inr _ \<Rightarrow>
          (let backoff = 250 in
           case ga_watch a (ws_service spec) of
             Inl status \<Rightarrow>
               Sent (grpc_emit_error T spec cfg (ga_error_now a) ''watch failed'' status)
               # Slept backoff # watch_one_from T U G spec cfg tls (min (backoff * 2) 15000) as
           | Inr _ \<Rightarrow>
               map Sent (stream_loop T G spec cfg (ga_stream a))
               @ Slept backoff # watch_one_from T U G spec cfg tls (min (backoff * 2) 15000) as))"

definition watch_one ::
  "'t time_api \<Rightarrow> (string \<Rightarrow> string) \<Rightarrow> status_api \<Rightarrow> watch_spec \<Rightarrow> grpc_cfg \<Rightarrow> grpc_tls_files
    \<Rightarrow> 't grpc_attempt list \<Rightarrow> watch_act list" where
  "watch_one T U G spec cfg tls as = watch_one_from T U G spec cfg tls 250 as"

definition spawn_watchers ::
  "'t time_api \<Rightarrow> (string \<Rightarrow> string) \<Rightarrow> status_api \<Rightarrow> (watch_spec \<Rightarrow> 't grpc_attempt list)
    \<Rightarrow> watch_spec list \<Rightarrow> grpc_cfg \<Rightarrow> grpc_tls_files \<Rightarrow> watch_act list list" where
  "spawn_watchers T U G net specs cfg tls =
     (if specs = [] then [] else map (\<lambda>spec. watch_one T U G spec cfg tls (net spec)) specs)"

section \<open>The delays\<close>

definition connects :: "(string \<Rightarrow> string) \<Rightarrow> watch_spec \<Rightarrow> grpc_tls_files \<Rightarrow> 't grpc_attempt \<Rightarrow> bool" where
  "connects U spec tls a \<longleftrightarrow> connect_channel U spec tls a = Ok ()"

interpretation gw: backoff_loop "connects U spec tls" "\<lambda>b as. slept (watch_one_from T U G spec cfg tls b as)"
  for T U G spec cfg tls
  by unfold_locales (auto simp: connects_def first_backoff_def next_backoff_def Let_def split: sum.splits)

section \<open>Time-to-live values arrive\<close>

lemma status_frame_kv:
  "hf_kv (status_frame G spec cfg now st) =
     [(''endpoint'', ws_endpoint spec), (''grpc_status'', st_debug G st), (''service'', ws_service spec),
      (''ttl_dead_s'', i64_to_string (gc_ttl_dead_s cfg)), (''ttl_stale_s'', i64_to_string (gc_ttl_stale_s cfg))]"
proof -
  have "bm_insert ''ttl_dead_s'' d (bm_insert ''ttl_stale_s'' s (bm_insert ''grpc_status'' g
      (bm_insert ''service'' v [(''endpoint'', e)]))) =
    [(''endpoint'', e), (''grpc_status'', g), (''service'', v), (''ttl_dead_s'', d), (''ttl_stale_s'', s)]"
    for d s g v e :: string
    by code_simp
  then show ?thesis
    by (cases "status_level st")
      (simp only: status_frame_def Let_def prod.case hawk_frame.select_convs bm_insert.simps(1))
qed

lemma grpc_error_frame_kv:
  "hf_kv (grpc_error_frame spec cfg now msg err) =
     [(''endpoint'', ws_endpoint spec), (''error'', err), (''service'', ws_service spec),
      (''ttl_dead_s'', i64_to_string (gc_ttl_dead_s cfg)), (''ttl_stale_s'', i64_to_string (gc_ttl_stale_s cfg))]"
proof -
  have "bm_insert ''ttl_dead_s'' d (bm_insert ''ttl_stale_s'' s (bm_insert ''error'' r
      (bm_insert ''service'' v [(''endpoint'', e)]))) =
    [(''endpoint'', e), (''error'', r), (''service'', v), (''ttl_dead_s'', d), (''ttl_stale_s'', s)]"
    for d s r v e :: string
    by code_simp
  then show ?thesis
    by (simp only: grpc_error_frame_def Let_def hawk_frame.select_convs bm_insert.simps(1))
qed

text \<open>The time-to-live values come last, so no separator in the other entries can harm them.\<close>

lemma grpc_ttl:
  assumes kv: "hf_kv f = [(''endpoint'', e), (k, x), (''service'', v), (''ttl_dead_s'', i64_to_string d),
      (''ttl_stale_s'', i64_to_string s)]"
    and tabs: "TAB \<notin> set e" "TAB \<notin> set k" "TAB \<notin> set x" "TAB \<notin> set v"
  shows "bm_get (hf_kv (read_back t f)) ''ttl_dead_s'' = Some (i64_to_string d)"
    "bm_get (hf_kv (read_back t f)) ''ttl_stale_s'' = Some (i64_to_string s)"
proof -
  have split: "hf_kv f = [(''endpoint'', e), (k, x), (''service'', v)]
      @ [(''ttl_dead_s'', i64_to_string d), (''ttl_stale_s'', i64_to_string s)] @ []"
    by (simp add: kv)
  have first: "clean_field (fst (hd (hf_kv f)))"
    unfolding kv by simp code_simp
  have tab: "\<forall>e \<in> set (hf_kv f). TAB \<notin> set (fst e) \<and> TAB \<notin> set (snd e)"
    using tabs TAB_i64 unfolding kv by auto
  show "bm_get (hf_kv (read_back t f)) ''ttl_dead_s'' = Some (i64_to_string d)"
    "bm_get (hf_kv (read_back t f)) ''ttl_stale_s'' = Some (i64_to_string s)"
    by (rule ttl_read_back [OF split _ _ _ first tab], simp_all)+
qed

section \<open>Hosts\<close>

lemma hd_split_on: "hd (split_on c s) = takeWhile (\<lambda>x. x \<noteq> c) s"
proof (induction s)
  case (Cons x xs)
  then show ?case by (cases "split_on c xs") auto
qed simp

lemma hd_split_str:
  assumes "hd p \<notin> set u" and "p \<noteq> []"
  shows "\<exists>w. hd (split_str p (u @ v)) = u @ w \<and> prefix w v"
  using assms(1)
proof (induction u)
  case Nil
  show ?case
  proof (induction p v rule: split_str.induct)
    case (2 p x xs)
    then show ?case by (cases "split_str p xs") auto
  qed simp
next
  case (Cons x u)
  then have "\<not> prefix p (x # u @ v)" using assms(2) by (cases p) auto
  moreover from Cons obtain w where "hd (split_str p (u @ v)) = u @ w" "prefix w v" by auto
  ultimately show ?case by (cases "split_str p (u @ v)") auto
qed

lemma split_scheme:
  "split_str ''://'' (''http://'' @ x) = ''http'' # split_str ''://'' x"
  "split_str ''://'' (''https://'' @ x) = ''https'' # split_str ''://'' x"
  by simp_all

definition host_end :: "string \<Rightarrow> bool" where
  "host_end r \<longleftrightarrow> r = [] \<or> hd r = CHR '':'' \<or> hd r = CHR ''/''"

lemma host_of_segment:
  assumes "CHR '':'' \<notin> set host" and "CHR ''/'' \<notin> set host" and "host_end r" and "prefix w r"
  shows "hd (split_on CHR '':'' (hd (split_on CHR ''/'' (host @ w)))) = host"
proof -
  have t: "takeWhile (\<lambda>x. x \<noteq> c) (host @ ys) = host @ takeWhile (\<lambda>x. x \<noteq> c) ys"
    if "c \<notin> set host" for c ys
    using that by (intro takeWhile_append2) blast
  consider "w = []" | ws where "w = CHR '':'' # ws" | ws where "w = CHR ''/'' # ws"
  proof (cases w)
    case (Cons c ws)
    with assms(4) have "hd r = c" "r \<noteq> []" by (auto simp: prefix_def)
    with assms(3) Cons that show thesis unfolding host_end_def by blast
  qed (use that in blast)
  moreover have "takeWhile (\<lambda>x. x \<noteq> c) host = host" if "c \<notin> set host" for c
    using t [OF that, of "[]"] by simp
  ultimately show ?thesis
    by cases (simp_all add: hd_split_on t assms(1,2) del: takeWhile_append takeWhile_eq_all_conv)
qed

section \<open>Properties\<close>

text \<open>
  The delay before retrying a gRPC watch is 250 ms, doubled for each attempt since the
  last one that connected, up to 15 s; every delay lies between these bounds, so the doubling
  in \<open>u64\<close> never wraps, and there is one delay per attempt.
\<close>

theorem grpc_backoff_exact:
  "map unat (slept (watch_one T U G spec cfg tls as)) =
     map (\<lambda>k. min 15000 (250 * 2 ^ k)) (since_reset (connects U spec tls) 0 as)
   \<and> length (slept (watch_one T U G spec cfg tls as)) = length as
   \<and> list_all (\<lambda>b. 250 \<le> unat b \<and> unat b \<le> 15000) (slept (watch_one T U G spec cfg tls as))"
proof -
  have b: "unat (250 :: ms) = delay 0" by (simp add: delay_def)
  show ?thesis
    unfolding watch_one_def list_all_iff
    using gw.sleeps_exact [OF b, of T U G spec cfg tls as] gw.length_sleeps [of T U G spec cfg tls 250 as]
      gw.sleeps_bounded [OF b, of _ T U G spec cfg tls as]
    by (simp add: delay_def)
qed

text \<open>
  A TLS configuration is built exactly from a readable certificate authority and a
  domain name, given or taken from the URI; in mutual mode it always carries the client's
  certificate and key, in the other modes never.
\<close>

theorem tls_config_exact:
  "build_tls_config U read uri tls = Ok c \<longleftrightarrow>
     (\<exists>ca_path. tf_ca_pem tls = Some ca_path \<and> read ca_path = Ok (ct_ca c))
     \<and> Some (ct_domain c) = (case tf_domain_name tls of Some d \<Rightarrow> Some d | None \<Rightarrow> derive_host_from_uri uri)
     \<and> (if tf_mode tls = Mtls
        then \<exists>cert_path key_path cert key.
               tf_client_cert_pem tls = Some cert_path \<and> tf_client_key_pem tls = Some key_path
               \<and> read cert_path = Ok cert \<and> read key_path = Ok key
               \<and> ct_identity c = Some (cert, key)
        else ct_identity c = None)"
proof -
  have dom: "(case tf_domain_name tls of Some d \<Rightarrow> Ok d
      | None \<Rightarrow> ok_or e (derive_host_from_uri uri)) = Ok d \<longleftrightarrow>
    Some d = (case tf_domain_name tls of Some d \<Rightarrow> Some d | None \<Rightarrow> derive_host_from_uri uri)" for e d
    by (cases "tf_domain_name tls") (auto simp: result_simps)
  show ?thesis
    by (cases c) (auto simp: build_tls_config_def Let_def result_simps dom)
qed

text \<open>
  For an endpoint \<open>host\<close>, \<open>host:port\<close> or \<open>host/path\<close> given without a
  scheme, the name verified by TLS is the host, in every mode.
\<close>

theorem host_of_endpoint:
  assumes "host \<noteq> []" and "CHR '':'' \<notin> set host" and "CHR ''/'' \<notin> set host" and "host_end rest"
    and "trimmed (host @ rest)"
    and "\<not> prefix ''http://'' (host @ rest)" and "\<not> prefix ''https://'' (host @ rest)"
  shows "derive_host_from_uri (normalize_endpoint_uri (host @ rest) mode) = Some host"
proof -
  have p: "hd ''://'' \<notin> set host" "''://'' \<noteq> []" using assms(2) by simp_all
  from hd_split_str [OF p, of rest] obtain w where
    w: "hd (split_str ''://'' (host @ rest)) = host @ w" "prefix w rest" by blast
  then obtain qs where seg: "split_str ''://'' (host @ rest) = (host @ w) # qs"
    by (cases "split_str ''://'' (host @ rest)") auto
  have "derive_host_from_uri (''http://'' @ host @ rest) = Some host"
    "derive_host_from_uri (''https://'' @ host @ rest) = Some host"
    unfolding derive_host_from_uri_def split_scheme seg
    using host_of_segment [OF assms(2-4) w(2)] assms(1) by (simp_all add: Let_def)
  then show ?thesis
    using assms(5-7) by (cases mode) (simp_all add: normalize_endpoint_uri_def Let_def)
qed

theorem host_of_endpoint_witness:
  "derive_host_from_uri (normalize_endpoint_uri (''svc'' @ '':8443'') Mtls) = Some ''svc''"
proof -
  have "trimmed (''svc'' @ '':8443'')" by code_simp
  then show ?thesis
    by (intro host_of_endpoint) (simp_all add: host_end_def)
qed

text \<open>A bracketed IPv6 address is cut at its first colon.\<close>

lemma host_of_ipv6: "derive_host_from_uri (normalize_endpoint_uri ''[::1]:50051'' Tls) = Some ''[''"
  by code_simp

text \<open>An explicit plain scheme is kept in the TLS modes.\<close>

lemma normalize_keeps_http: "normalize_endpoint_uri ''http://svc:443'' Mtls = ''http://svc:443''"
  by code_simp

text \<open>
  A watch spec of an endpoint, a service and an id written with commas is parsed back
  into the three; an endpoint alone gets the empty service and an id made of it.
\<close>

theorem watch_spec_round_trip:
  assumes "e \<noteq> []" and "i \<noteq> []" and "trimmed e" and "trimmed s" and "trimmed i"
    and "CHR '','' \<notin> set e" and "CHR '','' \<notin> set s" and "CHR '','' \<notin> set i"
  shows "parse_watch_spec (e @ '','' @ s @ '','' @ i) =
      Ok \<lparr>ws_endpoint = e, ws_service = s, ws_id = i\<rparr>
    \<and> parse_watch_spec e = Ok \<lparr>ws_endpoint = e, ws_service = [], ws_id = default_watch_id e []\<rparr>"
proof -
  have "split_on CHR '','' (e @ '','' @ s @ '','' @ i) = [e, s, i]"
    using assms by (simp add: split_on_append split_on_no_sep)
  moreover have "split_on CHR '','' e = [e]"
    using assms by (simp add: split_on_no_sep)
  ultimately show ?thesis
    using assms(1-5) by (simp add: parse_watch_spec_def part_trim_def Let_def)
qed

theorem watch_spec_round_trip_witness:
  "parse_watch_spec (''https://svc:443'' @ '','' @ ''My.Service'' @ '','' @ ''svc.my'') =
     Ok \<lparr>ws_endpoint = ''https://svc:443'', ws_service = ''My.Service'', ws_id = ''svc.my''\<rparr>"
proof -
  have "trimmed ''https://svc:443''" "trimmed ''My.Service''" "trimmed ''svc.my''" by code_simp+
  from watch_spec_round_trip [OF _ _ this] show ?thesis by simp
qed

end
