(* ===== verification/Hawkd_Main.thy ===== *)
theory Hawkd_Main
  imports Hawkd_Ingest Hawkd_Systemd Hawkd_Grpc
begin

text \<open>
  The daemon's spine (\<open>crates/hawkd/src/main.rs\<close>): the stdin source, the accept loop,
  the broadcast to all connected mirrors and the wiring of the sources. A connected stream is
  a value of a type the model does not fix; \<open>wr s b\<close> is the stream after
  \<open>write_all\<close> and \<open>flush\<close> and whether the write succeeded. The threads interleave
  on the channel and on the locked list of clients, which is a step relation.
\<close>

type_synonym 'c writer = "'c \<Rightarrow> string \<Rightarrow> 'c \<times> bool"

section \<open>The stdin source\<close>

fun stdin_source :: "'t time_api \<Rightarrow> (string \<Rightarrow> string) \<Rightarrow> bool \<Rightarrow> 't client_event list \<Rightarrow> string list" where
  "stdin_source T U strict [] = []"
| "stdin_source T U strict (ClientError # es) = []"
| "stdin_source T U strict (ClientLine line now # es) =
     (case parse_tsv_line T line of
        Inr (Some frame) \<Rightarrow> (to_tsv_line T frame now @ [LF]) # stdin_source T U strict es
      | Inr None \<Rightarrow> stdin_source T U strict es
      | Inl e \<Rightarrow>
          if strict then [''# hawkd strict parse error: '' @ debug_parse_error U e @ [LF]]
          else stdin_source T U strict es)"

section \<open>Clients\<close>

definition accept_one :: "'c writer \<Rightarrow> bool \<Rightarrow> bool \<Rightarrow> string + 'c \<Rightarrow> 'c list \<Rightarrow> 'c list" where
  "accept_one wr banner poisoned incoming clients =
     (case incoming of
        Inl _ \<Rightarrow> clients
      | Inr stream \<Rightarrow>
          let stream = (if banner then fst (wr stream (''# hawkd connected'' @ [LF])) else stream)
          in if poisoned then clients else clients @ [stream])"

text \<open>The loop of \<open>broadcast\<close> from index \<open>i\<close> on.\<close>

function broadcast_from :: "'c writer \<Rightarrow> string \<Rightarrow> nat \<Rightarrow> 'c list \<Rightarrow> 'c list" where
  "broadcast_from wr bytes i lock =
     (if i < length lock then
        case wr (lock ! i) bytes of
          (s, ok) \<Rightarrow>
            if \<not> ok then broadcast_from wr bytes i (take i lock @ drop (Suc i) lock)
            else broadcast_from wr bytes (i + 1) (lock[i := s])
      else lock)"
  by pat_completeness auto
termination
  by (relation "measure (\<lambda>(wr, bytes, i, lock). length lock - i)") auto

declare broadcast_from.simps [simp del]

definition broadcast :: "'c writer \<Rightarrow> bool \<Rightarrow> string \<Rightarrow> 'c list \<Rightarrow> 'c list" where
  "broadcast wr poisoned bytes clients = (if poisoned then clients else broadcast_from wr bytes 0 clients)"

section \<open>The spine\<close>

text \<open>
  The channel, the clients and the lock's poison flag; \<open>sp_sent\<close> and \<open>sp_log\<close> record
  the messages sent so far and those broadcast so far.
\<close>

record 'c spine =
  sp_queue :: "string list"
  sp_clients :: "'c list"
  sp_poisoned :: bool
  sp_sent :: "string list"
  sp_log :: "string list"

definition spine_new :: "'c spine" where
  "spine_new = \<lparr>sp_queue = [], sp_clients = [], sp_poisoned = False, sp_sent = [], sp_log = []\<rparr>"

definition spine_send :: "string \<Rightarrow> 'c spine \<Rightarrow> 'c spine" where
  "spine_send m s = s\<lparr>sp_queue := sp_queue s @ [m], sp_sent := sp_sent s @ [m]\<rparr>"

definition spine_accept :: "'c writer \<Rightarrow> bool \<Rightarrow> string + 'c \<Rightarrow> 'c spine \<Rightarrow> 'c spine" where
  "spine_accept wr banner incoming s =
     s\<lparr>sp_clients := accept_one wr banner (sp_poisoned s) incoming (sp_clients s)\<rparr>"

text \<open>One turn of \<open>for bytes in spine_rx\<close>.\<close>

definition spine_deliver :: "'c writer \<Rightarrow> 'c spine \<Rightarrow> 'c spine" where
  "spine_deliver wr s =
     (case sp_queue s of
        [] \<Rightarrow> s
      | m # q \<Rightarrow> s\<lparr>sp_queue := q, sp_clients := broadcast wr (sp_poisoned s) m (sp_clients s),
                   sp_log := sp_log s @ [m]\<rparr>)"

definition spine_start :: "'c spine \<Rightarrow> bool" where
  "spine_start s \<longleftrightarrow> s = spine_new"

text \<open>A stream just accepted has received nothing.\<close>

inductive spine_step :: "'c writer \<Rightarrow> ('c \<Rightarrow> string) \<Rightarrow> bool \<Rightarrow> 'c spine \<Rightarrow> 'c spine \<Rightarrow> bool"
  for wr :: "'c writer" and got :: "'c \<Rightarrow> string" and banner :: bool where
  send: "spine_step wr got banner s (spine_send m s)"
| accept_ok: "got c = [] \<Longrightarrow> spine_step wr got banner s (spine_accept wr banner (Ok c) s)"
| accept_err: "spine_step wr got banner s (spine_accept wr banner (Err e) s)"
| deliver: "sp_queue s \<noteq> [] \<Longrightarrow> spine_step wr got banner s (spine_deliver wr s)"

inductive_cases spine_stepE: "spine_step wr got banner s t"

section \<open>Broadcast is a filtered map\<close>

definition write_or_drop :: "'c writer \<Rightarrow> string \<Rightarrow> 'c \<Rightarrow> 'c option" where
  "write_or_drop wr bytes c = (case wr c bytes of (s, ok) \<Rightarrow> if ok then Some s else None)"

lemma map_filter_Cons:
  "List.map_filter f (x # xs) = (case f x of None \<Rightarrow> List.map_filter f xs | Some y \<Rightarrow> y # List.map_filter f xs)"
  by (simp add: map_filter_def split: option.splits)

lemma broadcast_from_split:
  "broadcast_from wr bytes (length us) (us @ vs) = us @ List.map_filter (write_or_drop wr bytes) vs"
proof (induction vs arbitrary: us)
  case Nil
  then show ?case by (subst broadcast_from.simps) (simp add: map_filter_def)
next
  case (Cons v vs)
  obtain s ok where w: "wr v bytes = (s, ok)" by force
  show ?case
  proof (cases ok)
    case True
    have "broadcast_from wr bytes (length us) (us @ v # vs) =
        broadcast_from wr bytes (length (us @ [s])) ((us @ [s]) @ vs)"
      by (subst broadcast_from.simps) (simp add: w True)
    with Cons [of "us @ [s]"] show ?thesis
      by (simp add: map_filter_Cons write_or_drop_def w True)
  next
    case False
    have "broadcast_from wr bytes (length us) (us @ v # vs) = broadcast_from wr bytes (length us) (us @ vs)"
      by (subst broadcast_from.simps) (simp add: w False)
    with Cons [of us] show ?thesis
      by (simp add: map_filter_Cons write_or_drop_def w False)
  qed
qed

lemma broadcast_from_0: "broadcast_from wr bytes 0 cs = List.map_filter (write_or_drop wr bytes) cs"
  using broadcast_from_split [of wr bytes "[]" cs] by simp

text \<open>
  C14: the index loop with removal writes the message once to every client, in order, drops
  exactly those whose write fails and keeps the others in their order.
\<close>

theorem broadcast_exact:
  "broadcast wr False bytes cs =
     map (\<lambda>c. fst (wr c bytes)) (filter (\<lambda>c. snd (wr c bytes)) cs)"
proof -
  have "List.map_filter (write_or_drop wr bytes) cs = map (\<lambda>c. fst (wr c bytes)) (filter (\<lambda>c. snd (wr c bytes)) cs)"
    by (induction cs) (auto simp: map_filter_Cons write_or_drop_def map_filter_def split: prod.splits)
  then show ?thesis by (simp add: broadcast_def broadcast_from_0)
qed

section \<open>The invariant of the spine\<close>

text \<open>What \<open>write_all\<close> promises: all the bytes on success, an initial part of them otherwise.\<close>

definition writes_append :: "'c writer \<Rightarrow> ('c \<Rightarrow> string) \<Rightarrow> bool" where
  "writes_append wr got \<longleftrightarrow>
     (\<forall>c b. \<exists>p. got (fst (wr c b)) = got c @ p \<and> prefix p b \<and> (snd (wr c b) \<longrightarrow> p = b))"

definition banner_text :: "bool \<Rightarrow> string" where
  "banner_text banner = (if banner then ''# hawkd connected'' @ [LF] else [])"

text \<open>A client has the banner, or the part of it that could be written, and then every
  message broadcast since it joined.\<close>

definition client_view :: "bool \<Rightarrow> string list \<Rightarrow> string \<Rightarrow> bool" where
  "client_view banner log bytes \<longleftrightarrow>
     (\<exists>p k. prefix p (banner_text banner) \<and> k \<le> length log \<and> bytes = p @ concat (drop k log))"

definition spine_inv :: "('c \<Rightarrow> string) \<Rightarrow> bool \<Rightarrow> 'c spine \<Rightarrow> bool" where
  "spine_inv got banner s \<longleftrightarrow>
     \<not> sp_poisoned s \<and> sp_sent s = sp_log s @ sp_queue s
     \<and> list_all (\<lambda>c. client_view banner (sp_log s) (got c)) (sp_clients s)"

lemma client_view_new: "prefix p (banner_text banner) \<Longrightarrow> client_view banner log p"
  unfolding client_view_def by (intro exI [of _ p] exI [of _ "length log"]) simp

lemma client_view_write:
  assumes "client_view banner log bytes"
  shows "client_view banner (log @ [m]) (bytes @ m)"
proof -
  from assms obtain p k where "prefix p (banner_text banner)" "k \<le> length log"
    "bytes = p @ concat (drop k log)"
    by (auto simp: client_view_def)
  then show ?thesis
    unfolding client_view_def by (intro exI [of _ p] exI [of _ k]) simp
qed

lemma accepted_view:
  assumes "writes_append wr got" and "got c = []"
  shows "client_view banner log (got (if banner then fst (wr c (''# hawkd connected'' @ [LF])) else c))"
proof (cases banner)
  case True
  from assms(1) obtain p where "got (fst (wr c (''# hawkd connected'' @ [LF]))) = got c @ p"
    "prefix p (''# hawkd connected'' @ [LF])"
    unfolding writes_append_def by blast
  then show ?thesis
    using True assms(2) client_view_new [of p True log] by (simp add: banner_text_def)
qed (use assms client_view_new in simp)

lemma broadcast_view:
  assumes "writes_append wr got" and "list_all (\<lambda>c. client_view banner log (got c)) cs"
  shows "list_all (\<lambda>c. client_view banner (log @ [m]) (got c)) (broadcast_from wr m 0 cs)"
proof -
  have "client_view banner (log @ [m]) (got c')"
    if "c \<in> set cs" "write_or_drop wr m c = Some c'" for c c'
  proof -
    from that(2) have w: "wr c m = (c', True)"
      by (auto simp: write_or_drop_def split: prod.splits if_splits)
    from assms(1) have "got (fst (wr c m)) = got c @ m" unfolding writes_append_def
      using w by (metis snd_conv)
    with w have "got c' = got c @ m" by simp
    with assms(2) that(1) show ?thesis by (simp add: list_all_iff client_view_write)
  qed
  then show ?thesis
    by (auto simp: broadcast_from_0 list_all_iff map_filter_def)
qed

lemma spine_inv_step:
  assumes "writes_append wr got" and "spine_inv got banner s" and "spine_step wr got banner s t"
  shows "spine_inv got banner t"
  using assms(3)
proof (cases rule: spine_step.cases)
  case (accept_ok c)
  with assms(1,2) accepted_view [of wr got c banner "sp_log s"] show ?thesis
    by (simp add: spine_inv_def accept_one_def spine_accept_def Let_def)
next
  case deliver
  with assms(1,2) broadcast_view [of wr got banner "sp_log s" "sp_clients s" "hd (sp_queue s)"] show ?thesis
    by (cases "sp_queue s") (simp_all add: spine_inv_def broadcast_def spine_deliver_def)
qed (use assms(2) in \<open>simp_all add: spine_inv_def accept_one_def spine_send_def spine_accept_def\<close>)

lemma spine_inv_start: "spine_start s \<Longrightarrow> spine_inv got banner s"
  by (simp add: spine_start_def spine_new_def spine_inv_def)

interpretation spine: invariant_system spine_start "spine_step wr got banner"
    "\<lambda>s. writes_append wr got \<longrightarrow> spine_inv got banner s"
  for wr got banner
  by unfold_locales (simp add: spine_inv_start, blast intro: spine_inv_step)

section \<open>Draining the channel\<close>

lemma drain:
  "\<exists>t. (spine_step wr got banner)\<^sup>*\<^sup>* s t \<and> sp_queue t = [] \<and> sp_log t = sp_log s @ sp_queue s
     \<and> sp_sent t = sp_sent s"
proof (induction "sp_queue s" arbitrary: s)
  case Nil
  then show ?case by (intro exI [of _ s]) simp
next
  case (Cons m q)
  let ?s = "spine_deliver wr s"
  have d: "sp_queue ?s = q" "sp_log ?s = sp_log s @ [m]" "sp_sent ?s = sp_sent s"
    by (simp_all add: spine_deliver_def Cons.hyps(2) [symmetric])
  have step: "spine_step wr got banner s ?s"
    using Cons.hyps(2) by (intro spine_step.deliver) auto
  from Cons.hyps(1) [OF d(1) [symmetric]] obtain t where
    "(spine_step wr got banner)\<^sup>*\<^sup>* ?s t" "sp_queue t = []" "sp_log t = sp_log ?s @ sp_queue ?s"
    "sp_sent t = sp_sent ?s"
    by blast
  then show ?case
    using converse_rtranclp_into_rtranclp [where r = "spine_step wr got banner", OF step] Cons.hyps(2) [symmetric] d
    by (intro exI [of _ t]) simp
qed

section \<open>Properties of the spine\<close>


text \<open>A stream that takes a bounded number of bytes, and then fails.\<close>

fun bounded_write :: "(string \<times> nat) writer" where
  "bounded_write (r, n) b =
     (if length b \<le> n then ((r @ b, n - length b), True) else ((r @ take n b, 0), False))"

lemma bounded_write_appends: "writes_append bounded_write fst"
  by (auto simp: writes_append_def take_is_prefix)

definition demo_spine :: "(string \<times> nat) spine" where
  "demo_spine =
     spine_deliver bounded_write (spine_send (''b'' @ [LF]) (spine_accept bounded_write True (Ok ([], 30))
       (spine_deliver bounded_write (spine_send (''a'' @ [LF]) spine_new))))"

lemma demo_spine_eq:
  "sp_clients demo_spine = [(''# hawkd connected'' @ [LF] @ ''b'' @ [LF], 10)]"
  "sp_sent demo_spine = [''a'' @ [LF], ''b'' @ [LF]]"
  by code_simp+

lemma reach_spine_intros:
  assumes "reach spine_start (spine_step wr got banner) s"
  shows "reach spine_start (spine_step wr got banner) (spine_send m s)"
    "got c = [] \<Longrightarrow> reach spine_start (spine_step wr got banner) (spine_accept wr banner (Ok c) s)"
    "sp_queue s \<noteq> [] \<Longrightarrow> reach spine_start (spine_step wr got banner) (spine_deliver wr s)"
  by (rule reach_step [OF assms], rule spine_step.send,
      rule reach_step [OF assms], erule spine_step.accept_ok,
      rule reach_step [OF assms], erule spine_step.deliver)

lemma reach_demo_spine: "reach spine_start (spine_step bounded_write fst True) demo_spine"
proof -
  have "reach spine_start (spine_step bounded_write fst True) spine_new"
    by (rule reach_start) (simp add: spine_start_def)
  then show ?thesis
    unfolding demo_spine_def by (intro reach_spine_intros) (simp_all add: spine_send_def)
qed




section \<open>The stdin source as an event loop\<close>

fun source_msgs :: "'t time_api \<Rightarrow> (string \<Rightarrow> string) \<Rightarrow> bool \<Rightarrow> 't client_event \<Rightarrow> string list" where
  "source_msgs T U strict ClientError = []"
| "source_msgs T U strict (ClientLine line now) =
     (case parse_tsv_line T line of
        Inr (Some frame) \<Rightarrow> [to_tsv_line T frame now @ [LF]]
      | Inr None \<Rightarrow> []
      | Inl e \<Rightarrow> if strict then [''# hawkd strict parse error: '' @ debug_parse_error U e @ [LF]] else [])"

fun source_halts :: "'t time_api \<Rightarrow> bool \<Rightarrow> 't client_event \<Rightarrow> bool" where
  "source_halts T strict ClientError = True"
| "source_halts T strict (ClientLine line now) = (strict \<and> (\<exists>e. parse_tsv_line T line = Inl e))"

interpretation ss: event_loop "source_msgs T U strict" "source_halts T strict" "stdin_source T U strict"
  for T U strict
proof
  fix e es
  show "stdin_source T U strict (e # es) =
    source_msgs T U strict e @ (if source_halts T strict e then [] else stdin_source T U strict es)"
    by (cases e) (auto split: sum.splits option.splits)
qed simp

section \<open>Starting the daemon\<close>

datatype hawkd_source = Stdin | NoSource

record hawkd_cli =
  hc_socket_path :: string
  hc_overwrite :: bool
  hc_ingest_path :: "string option"
  hc_ingest_overwrite :: bool
  hc_strict :: bool
  hc_source :: hawkd_source
  hc_client_banner :: bool
  hc_watches :: "watch_spec list"
  hc_units :: "unit_spec list"
  hc_grpc_tls_mode :: grpc_tls_mode
  hc_grpc_ca :: "string option"
  hc_grpc_domain :: "string option"
  hc_grpc_cert :: "string option"
  hc_grpc_key :: "string option"
  hc_systemd_ttl_stale_s :: int
  hc_systemd_ttl_dead_s :: int
  hc_grpc_ttl_stale_s :: int
  hc_grpc_ttl_dead_s :: int

text \<open>The arguments when none is given.\<close>

definition hawkd_cli_default :: hawkd_cli where
  "hawkd_cli_default =
     \<lparr>hc_socket_path = ''/tmp/hawk.sock'', hc_overwrite = True, hc_ingest_path = None,
      hc_ingest_overwrite = True, hc_strict = False, hc_source = Stdin, hc_client_banner = True,
      hc_watches = [], hc_units = [], hc_grpc_tls_mode = TlsOff, hc_grpc_ca = None, hc_grpc_domain = None,
      hc_grpc_cert = None, hc_grpc_key = None, hc_systemd_ttl_stale_s = 3600,
      hc_systemd_ttl_dead_s = 21600, hc_grpc_ttl_stale_s = 3600, hc_grpc_ttl_dead_s = 21600\<rparr>"

text \<open>What the outside gives the daemon: sockets, publishers, standard input, networks and buses.\<close>

record ('w, 't) hawkd_env =
  he_sock :: "'w sock_api"
  he_ingest :: "(string + 't client_event list) list"
  he_stdin :: "'t client_event list"
  he_net :: "watch_spec \<Rightarrow> 't grpc_attempt list"
  he_bus :: "unit_spec \<Rightarrow> 't unit_attempt list"

datatype hawkd_error = BindBroadcast string string | BindIngest string

definition grpc_cfg_of :: "hawkd_cli \<Rightarrow> grpc_cfg" where
  "grpc_cfg_of cli = \<lparr>gc_ttl_stale_s = hc_grpc_ttl_stale_s cli, gc_ttl_dead_s = hc_grpc_ttl_dead_s cli\<rparr>"

definition grpc_tls_of :: "hawkd_cli \<Rightarrow> grpc_tls_files" where
  "grpc_tls_of cli =
     \<lparr>tf_mode = hc_grpc_tls_mode cli, tf_ca_pem = hc_grpc_ca cli, tf_client_cert_pem = hc_grpc_cert cli,
      tf_client_key_pem = hc_grpc_key cli, tf_domain_name = hc_grpc_domain cli\<rparr>"

definition systemd_cfg_of :: "hawkd_cli \<Rightarrow> systemd_cfg" where
  "systemd_cfg_of cli =
     \<lparr>sc_ttl_stale_s = hc_systemd_ttl_stale_s cli, sc_ttl_dead_s = hc_systemd_ttl_dead_s cli\<rparr>"

text \<open>
  The sockets after start-up and, for each producer thread, what it sends to the spine; the
  broadcast loop then runs over an interleaving of these.
\<close>

definition hawkd_main ::
  "'t time_api \<Rightarrow> (string \<Rightarrow> string) \<Rightarrow> status_api \<Rightarrow> ('w, 't) hawkd_env \<Rightarrow> hawkd_cli \<Rightarrow> 'w
    \<Rightarrow> hawkd_error + 'w \<times> string list list" where
  "hawkd_main T U G env cli w =
     (let K = he_sock env;
          w1 = (if hc_overwrite cli then sk_remove_file K (hc_socket_path cli) w else w)
      in and_then (map_err (BindBroadcast (hc_socket_path cli)) (sk_bind K (hc_socket_path cli) w1)) (\<lambda>w2.
         and_then (case hc_ingest_path cli of
                     None \<Rightarrow> Ok (w2, [])
                   | Some path \<Rightarrow>
                       map_err BindIngest (spawn_unix_ingest K T U path (hc_ingest_overwrite cli)
                         (hc_strict cli) (he_ingest env) w2)) (\<lambda>(w3, publishers).
           let ingest = map snd publishers;
               stdin = (if hc_source cli = Stdin then [stdin_source T U (hc_strict cli) (he_stdin env)] else []);
               grpc = (if hc_watches cli \<noteq> []
                       then map sent (spawn_watchers T U G (he_net env) (hc_watches cli) (grpc_cfg_of cli)
                              (grpc_tls_of cli))
                       else []);
               systemd = (if hc_units cli \<noteq> []
                          then map sent (spawn_unit_watchers T (he_bus env) (hc_units cli) (systemd_cfg_of cli))
                          else [])
           in Ok (w3, ingest @ stdin @ grpc @ systemd))))"

end
