(* ===== verification/Hawk_Dash.thy ===== *)
theory Hawk_Dash
  imports Rust_Str
begin

text \<open>
  The Python dashboard (\<open>hawk_tui.py\<close>): its configuration, the cache of polled data, the
  polls, the actions of the keys, the main loop and the arithmetic of its layout. Text is
  UTF-8 as elsewhere; integers are unbounded. Times are in microseconds. What a child
  process, the files, the clock and the keyboard answer is data of the model; an index out
  of range, which Python raises, is an error of the result.
\<close>

section \<open>Python text\<close>

text \<open>\<open>str.strip()\<close>: Python also counts the separators 1C to 1F as white space.\<close>

definition py_space :: "string list" where
  "py_space = white_space @ [[CHR 0x1C], [CHR 0x1D], [CHR 0x1E], [CHR 0x1F]]"

definition py_strip :: "string \<Rightarrow> string" where
  "py_strip s = rev (strip_pre (map rev py_space) (rev (strip_pre py_space s)))"

text \<open>\<open>str.splitlines()\<close>.\<close>

definition line_breaks :: "string list" where
  "line_breaks =
     [[CR, LF], [LF], [CR], [CHR 0x0B], [CHR 0x0C], [CHR 0x1C], [CHR 0x1D], [CHR 0x1E],
      [CHR 0xC2, CHR 0x85], [CHR 0xE2, CHR 0x80, CHR 0xA8], [CHR 0xE2, CHR 0x80, CHR 0xA9]]"

function splitlines_from :: "string \<Rightarrow> string \<Rightarrow> string list" where
  "splitlines_from acc [] = (if acc = [] then [] else [rev acc])"
| "splitlines_from acc (x # xs) =
     (case find (\<lambda>w. w \<noteq> [] \<and> prefix w (x # xs)) line_breaks of
        Some w \<Rightarrow> rev acc # splitlines_from [] (drop (length w) (x # xs))
      | None \<Rightarrow> splitlines_from (x # acc) xs)"
  by pat_completeness auto
termination
  by (relation "measure (\<lambda>(acc, s). length s)") (auto simp: find_Some_iff)

definition splitlines :: "string \<Rightarrow> string list" where
  "splitlines s = splitlines_from [] s"

text \<open>\<open>s.split(c, n)\<close>: at most \<open>n\<close> splits.\<close>

fun split_max :: "nat \<Rightarrow> char \<Rightarrow> string \<Rightarrow> string list" where
  "split_max 0 c s = [s]"
| "split_max (Suc n) c s =
     (case split_once c s of None \<Rightarrow> [s] | Some (a, b) \<Rightarrow> a # split_max n c b)"

text \<open>\<open>xs[-n:]\<close> for a positive \<open>n\<close>, and \<open>xs[i]\<close>.\<close>

definition last_n :: "nat \<Rightarrow> 'a list \<Rightarrow> 'a list" where
  "last_n n xs = drop (length xs - n) xs"

datatype py_error = IndexError

definition py_nth :: "'a list \<Rightarrow> int \<Rightarrow> py_error + 'a" where
  "py_nth xs i =
     (if 0 \<le> i \<and> i < int (length xs) then Ok (xs ! nat i)
      else if i < 0 \<and> - int (length xs) \<le> i then Ok (xs ! nat (i + int (length xs)))
      else Err IndexError)"

section \<open>Configuration and cache\<close>

record hawk_config =
  cf_base_dir :: string
  cf_bin :: string
  cf_adapters :: string
  cf_log_file :: string
  cf_stream_file :: string
  cf_grpc_targets :: string
  cf_grpc_fake :: string
  cf_units_file :: string
  cf_chat_file :: string
  cf_default_unit :: string

definition getenv :: "(string \<Rightarrow> string option) \<Rightarrow> string \<Rightarrow> string \<Rightarrow> string" where
  "getenv env k d = (case env k of Some v \<Rightarrow> v | None \<Rightarrow> d)"

definition config_init :: "(string \<Rightarrow> string option) \<Rightarrow> string \<Rightarrow> hawk_config" where
  "config_init env base =
     \<lparr>cf_base_dir = base, cf_bin = base @ ''/bin/hawk-cmd'', cf_adapters = base @ ''/adapters'',
      cf_log_file = getenv env ''HAWK_LOG_FILE'' (base @ ''/shell/fake_env/runtime.log''),
      cf_stream_file = getenv env ''HAWK_STREAM_FILE'' (base @ ''/shell/fake_env/stream.events''),
      cf_grpc_targets = getenv env ''HAWK_GRPC_TARGETS'' (base @ ''/shell/fake_env/grpc.targets''),
      cf_grpc_fake = getenv env ''HAWK_GRPC_FAKE_FILE'' (base @ ''/shell/fake_env/grpc_health.jsonl''),
      cf_units_file = getenv env ''HAWK_UNITS_FILE'' (base @ ''/conf/systemd_units.txt''),
      cf_chat_file = getenv env ''HAWK_CHAT_FILE'' (base @ ''/agent_chat.log''),
      cf_default_unit = getenv env ''HAWK_DAEMON_UNIT'' ''hawk-agent.service''\<rparr>"

record catalog_row =
  cr_id :: string
  cr_title :: string
  cr_runner :: string
  cr_desc :: string

record grpc_row =
  gr_endpoint :: string
  gr_status :: string
  gr_latency :: string
  gr_source :: string

record state_cache =
  sc_command_catalog :: "catalog_row list"
  sc_selected_command :: int
  sc_grpc_rows :: "grpc_row list"
  sc_grpc_last :: string
  sc_grpc_ok :: int
  sc_grpc_bad :: int
  sc_stream_rows :: "string list"
  sc_stream_last :: string
  sc_command_output :: "string list"
  sc_command_last :: string
  sc_log_tail :: "string list"
  sc_log_size :: int
  sc_log_delta :: int
  sc_log_last :: string
  sc_chat_tail :: "string list"
  sc_control_tail :: "string list"
  sc_last_grpc_poll :: int
  sc_last_stream_poll :: int
  sc_last_cmd_poll :: int
  sc_last_log_poll :: int
  sc_last_chat_poll :: int

definition cache_init :: state_cache where
  "cache_init =
     \<lparr>sc_command_catalog = [], sc_selected_command = 0, sc_grpc_rows = [], sc_grpc_last = ''never'',
      sc_grpc_ok = 0, sc_grpc_bad = 0, sc_stream_rows = [], sc_stream_last = ''never'',
      sc_command_output = [], sc_command_last = ''never'', sc_log_tail = [], sc_log_size = 0,
      sc_log_delta = 0, sc_log_last = ''never'', sc_chat_tail = [], sc_control_tail = [],
      sc_last_grpc_poll = 0, sc_last_stream_poll = 0, sc_last_cmd_poll = 0, sc_last_log_poll = 0,
      sc_last_chat_poll = 0\<rparr>"

text \<open>The deque of control lines keeps the newest 400.\<close>

definition ctl :: "string \<Rightarrow> string \<Rightarrow> state_cache \<Rightarrow> state_cache" where
  "ctl stamp line c = c\<lparr>sc_control_tail := last_n 400 (sc_control_tail c @ [stamp @ '' '' @ line])\<rparr>"

section \<open>Polls\<close>

text \<open>
  The answers of the outside: a child process, the log file with its size, the time of its
  last change and its text, the wall clock as \<open>%H:%M:%S\<close>, and \<open>str.upper\<close>.
\<close>

datatype proc_result = Completed int string string | Raised string

record dash_answers =
  an_run :: "string list \<Rightarrow> proc_result"
  an_log :: "(int \<times> string \<times> string) option"
  an_clock :: string
  an_upper :: "string \<Rightarrow> string"

definition run_capture :: "dash_answers \<Rightarrow> string list \<Rightarrow> int \<times> string" where
  "run_capture an cmd =
     (case an_run an cmd of
        Completed code out err \<Rightarrow> (code, py_strip (out @ err))
      | Raised exc \<Rightarrow> (1, exc))"

text \<open>Universal newlines: a text file is read with CR LF and CR as newlines.\<close>

fun newlines :: "string \<Rightarrow> string" where
  "newlines [] = []"
| "newlines [x] = [if x = CR then LF else x]"
| "newlines (x # y # s) =
     (if x = CR \<and> y = LF then LF # newlines s
      else (if x = CR then LF else x) # newlines (y # s))"

text \<open>The lines of a file without their newlines; an unterminated last line counts.\<close>

definition file_lines :: "string \<Rightarrow> string list" where
  "file_lines s = (let ps = split_on LF (newlines s) in if last ps = [] then butlast ps else ps)"

definition tail_lines :: "string option \<Rightarrow> nat \<Rightarrow> string list" where
  "tail_lines file n = (case file of None \<Rightarrow> [] | Some text \<Rightarrow> last_n n (file_lines text))"

definition catalog_rows :: "string \<Rightarrow> catalog_row list" where
  "catalog_rows out =
     List.map_filter
       (\<lambda>line. case map py_strip (split_max 3 CHR ''|'' line) of
                 [i, t, r, d] \<Rightarrow> Some \<lparr>cr_id = i, cr_title = t, cr_runner = r, cr_desc = d\<rparr>
               | _ \<Rightarrow> None)
       (splitlines out)"

definition poll_catalog :: "hawk_config \<Rightarrow> dash_answers \<Rightarrow> state_cache \<Rightarrow> state_cache" where
  "poll_catalog cfg an c =
     (let (code, out) = run_capture an [cf_bin cfg, ''list''];
          rows = (if code = 0 \<and> out \<noteq> [] then catalog_rows out else []);
          c = c\<lparr>sc_command_catalog := rows\<rparr>
      in if int (length rows) \<le> sc_selected_command c then c\<lparr>sc_selected_command := 0\<rparr> else c)"

definition grpc_rows_of :: "dash_answers \<Rightarrow> string \<Rightarrow> grpc_row list" where
  "grpc_rows_of an out =
     List.map_filter
       (\<lambda>line. let parts = split_on TAB line in
          if length parts < 4 then None
          else Some \<lparr>gr_endpoint = py_strip (parts ! 0), gr_status = an_upper an (py_strip (parts ! 1)),
                     gr_latency = py_strip (parts ! 2), gr_source = py_strip (parts ! 3)\<rparr>)
       (splitlines out)"

definition poll_grpc :: "hawk_config \<Rightarrow> dash_answers \<Rightarrow> state_cache \<Rightarrow> state_cache" where
  "poll_grpc cfg an c =
     (let (code, out) = run_capture an [cf_bin cfg, ''run'', ''grpc_health''];
          rows = (if code = 0 \<and> out \<noteq> [] then grpc_rows_of an out else []);
          (ok, bad) = fold (\<lambda>r (ok, bad). if gr_status r = ''SERVING'' then (ok + 1, bad) else (ok, bad + 1)) rows (0, 0)
      in c\<lparr>sc_grpc_rows := rows, sc_grpc_ok := ok, sc_grpc_bad := bad, sc_grpc_last := an_clock an\<rparr>)"

definition poll_streams :: "hawk_config \<Rightarrow> dash_answers \<Rightarrow> state_cache \<Rightarrow> state_cache" where
  "poll_streams cfg an c =
     (let (code, out) = run_capture an [cf_bin cfg, ''run'', ''stream_lag''];
          rows = (if code = 0 \<and> out \<noteq> [] then splitlines out else [])
      in c\<lparr>sc_stream_rows := rows, sc_stream_last := an_clock an\<rparr>)"

definition poll_command :: "hawk_config \<Rightarrow> dash_answers \<Rightarrow> state_cache \<Rightarrow> py_error + state_cache" where
  "poll_command cfg an c =
     (if sc_command_catalog c = [] then Ok (c\<lparr>sc_command_output := [''no commands loaded'']\<rparr>)
      else and_then (py_nth (sc_command_catalog c) (sc_selected_command c)) (\<lambda>row.
        let cmd_id = cr_id row;
            (code, out) = run_capture an [cf_bin cfg, ''run'', cmd_id];
            output = (if code = 0 \<and> out \<noteq> [] then last_n 80 (splitlines out)
                      else if code = 0 then [''(no output)'']
                      else [''command failed: '' @ cmd_id, if out \<noteq> [] then out else ''unknown error''])
        in Ok (c\<lparr>sc_command_output := output, sc_command_last := an_clock an\<rparr>)))"

text \<open>The chat file is created when it is missing; the text it has then comes with the result.\<close>

definition poll_logs_and_chat :: "dash_answers \<Rightarrow> string option \<times> state_cache \<Rightarrow> string option \<times> state_cache" where
  "poll_logs_and_chat an cs =
     (let (chat, c) = cs;
          c = (case an_log an of
                 None \<Rightarrow> c
               | Some (sz, mtime, _) \<Rightarrow>
                   c\<lparr>sc_log_delta := max 0 (sz - sc_log_size c), sc_log_size := sz, sc_log_last := mtime\<rparr>);
          c = c\<lparr>sc_log_tail := tail_lines (map_option (snd \<circ> snd) (an_log an)) 200\<rparr>;
          chat = (case chat of None \<Rightarrow> Some [] | Some t \<Rightarrow> Some t)
      in (chat, c\<lparr>sc_chat_tail := tail_lines chat 200\<rparr>))"

definition periodic_poll ::
  "hawk_config \<Rightarrow> dash_answers \<Rightarrow> int \<Rightarrow> string option \<times> state_cache \<Rightarrow> py_error + string option \<times> state_cache" where
  "periodic_poll cfg an now cs =
     (let (chat, c) = cs;
          c = (if 2000000 \<le> now - sc_last_grpc_poll c
               then (poll_grpc cfg an c)\<lparr>sc_last_grpc_poll := now\<rparr> else c);
          c = (if 2000000 \<le> now - sc_last_stream_poll c
               then (poll_streams cfg an c)\<lparr>sc_last_stream_poll := now\<rparr> else c)
      in and_then (if 2500000 \<le> now - sc_last_cmd_poll c
                   then and_then (poll_command cfg an c) (\<lambda>c. Ok (c\<lparr>sc_last_cmd_poll := now\<rparr>)) else Ok c) (\<lambda>c.
         Ok (if 800000 \<le> now - sc_last_log_poll c
             then (case poll_logs_and_chat an (chat, c) of (chat, c) \<Rightarrow> (chat, c\<lparr>sc_last_log_poll := now\<rparr>))
             else (chat, c))))"

section \<open>Actions\<close>

definition append_chat :: "string \<Rightarrow> string \<Rightarrow> string option \<Rightarrow> string option" where
  "append_chat stamp text chat =
     (if py_strip text = [] then chat
      else Some ((case chat of None \<Rightarrow> [] | Some t \<Rightarrow> t) @ stamp @ '' '' @ py_strip text @ [LF]))"

definition daemon_action :: "hawk_config \<Rightarrow> dash_answers \<Rightarrow> string \<Rightarrow> state_cache \<Rightarrow> state_cache" where
  "daemon_action cfg an action c =
     (let (code, out) = run_capture an [cf_base_dir cfg @ ''/adapters/daemon_ctl.sh'', action, cf_default_unit cfg];
          c = ctl (an_clock an) (action @ (if code = 0 then '' ok :: '' else '' failed :: '') @ cf_default_unit cfg) c
      in if out \<noteq> [] then fold (ctl (an_clock an)) (last_n 6 (splitlines out)) c else c)"

section \<open>The main loop\<close>

definition nav_items :: "string list" where
  "nav_items = [''Overview'', ''gRPC'', ''Streams'', ''Commands'']"

record dash_ui =
  du_cache :: state_cache
  du_chat :: "string option"
  du_selected :: int
  du_flash :: string
  du_flash_until :: int

text \<open>
  One turn: the clock at its start and inside \<open>periodic_poll\<close>, the answers to the polls,
  whether the terminal is large enough, the key (-1 for none), and for the action of the key
  the answers, the clock, the note typed and its time stamp.
\<close>

record dash_turn =
  dt_now :: int
  dt_poll_now :: int
  dt_poll :: dash_answers
  dt_large :: bool
  dt_key :: int
  dt_act :: dash_answers
  dt_act_now :: int
  dt_note :: string
  dt_stamp :: string

definition ord_of :: "char \<Rightarrow> int" where
  "ord_of c = of_char c"

definition is_key :: "int \<Rightarrow> string \<Rightarrow> bool" where
  "is_key key cs \<longleftrightarrow> key \<in> set (map ord_of cs)"

text \<open>\<open>curses.KEY_UP\<close> and \<open>curses.KEY_DOWN\<close>.\<close>

definition key_up :: int where "key_up = 259"
definition key_down :: int where "key_down = 258"

definition with_flash :: "dash_turn \<Rightarrow> string \<Rightarrow> int \<Rightarrow> dash_ui \<Rightarrow> dash_ui" where
  "with_flash tn text d u = u\<lparr>du_flash := text, du_flash_until := dt_act_now tn + d\<rparr>"

definition choose_command :: "dash_turn \<Rightarrow> int \<Rightarrow> dash_ui \<Rightarrow> py_error + dash_ui" where
  "choose_command tn d u =
     (let c = du_cache u in
      if sc_command_catalog c = [] then Ok u
      else let c = c\<lparr>sc_selected_command := (sc_selected_command c + d) mod int (length (sc_command_catalog c))\<rparr>
        in and_then (py_nth (sc_command_catalog c) (sc_selected_command c)) (\<lambda>row.
             Ok (with_flash tn (''selected cmd: '' @ cr_id row) 1500000 (u\<lparr>du_cache := c\<rparr>))))"

definition refresh_all :: "hawk_config \<Rightarrow> dash_answers \<Rightarrow> string option \<times> state_cache
    \<Rightarrow> py_error + string option \<times> state_cache" where
  "refresh_all cfg an cs =
     (let (chat, c) = cs;
          c = poll_streams cfg an (poll_grpc cfg an (poll_catalog cfg an c))
      in and_then (poll_command cfg an c) (\<lambda>c. Ok (poll_logs_and_chat an (chat, c))))"

definition add_note :: "dash_turn \<Rightarrow> dash_ui \<Rightarrow> dash_ui" where
  "add_note tn u =
     (let msg = py_strip (dt_note tn) in
      if msg \<noteq> []
      then (case poll_logs_and_chat (dt_act tn) (append_chat (dt_stamp tn) msg (du_chat u), du_cache u) of
              (chat, c) \<Rightarrow> with_flash tn ''note appended'' 1800000 (u\<lparr>du_chat := chat, du_cache := c\<rparr>))
      else with_flash tn ''empty note'' 1800000 u)"

text \<open>The key of a turn; the flag says that the loop ends.\<close>

definition dash_key :: "hawk_config \<Rightarrow> dash_turn \<Rightarrow> dash_ui \<Rightarrow> py_error + bool \<times> dash_ui" where
  "dash_key cfg tn u =
     (let key = dt_key tn;
          an = dt_act tn;
          go = (\<lambda>u. Ok (False, u));
          act = (\<lambda>a. go (u\<lparr>du_cache := daemon_action cfg an a (du_cache u)\<rparr>))
      in if key = - 1 then go u
         else if is_key key ''qQ'' then Ok (True, u)
         else if key = key_up \<or> is_key key ''k'' then go (u\<lparr>du_selected := (du_selected u - 1) mod int (length nav_items)\<rparr>)
         else if key = key_down \<or> is_key key ''j'' then go (u\<lparr>du_selected := (du_selected u + 1) mod int (length nav_items)\<rparr>)
         else if is_key key ''1234'' then go (u\<lparr>du_selected := key - ord_of CHR ''0'' - 1\<rparr>)
         else if is_key key ''['' then and_then (choose_command tn (- 1) u) go
         else if is_key key '']'' then and_then (choose_command tn 1 u) go
         else if key = 10 \<or> key = 13 then
           and_then (poll_command cfg an (du_cache u)) (\<lambda>c. go (with_flash tn ''command executed'' 1500000 (u\<lparr>du_cache := c\<rparr>)))
         else if is_key key ''rR'' then
           and_then (refresh_all cfg an (du_chat u, du_cache u)) (\<lambda>(chat, c).
             go (with_flash tn ''refreshed'' 1500000 (u\<lparr>du_chat := chat, du_cache := c\<rparr>)))
         else if is_key key ''aA'' then act ''start''
         else if is_key key ''zZ'' then act ''stop''
         else if is_key key ''eE'' then act ''restart''
         else if is_key key ''hH'' then act ''health''
         else if is_key key ''uU'' then act ''status''
         else if is_key key ''mM'' then go (add_note tn u)
         else go u)"

definition dash_turn_step :: "hawk_config \<Rightarrow> dash_turn \<Rightarrow> dash_ui \<Rightarrow> py_error + bool \<times> dash_ui" where
  "dash_turn_step cfg tn u =
     and_then (periodic_poll cfg (dt_poll tn) (dt_poll_now tn) (du_chat u, du_cache u)) (\<lambda>(chat, c).
     let u = u\<lparr>du_chat := chat, du_cache := c\<rparr>;
         u = (if du_flash_until u \<noteq> 0 \<and> du_flash_until u < dt_now tn then u\<lparr>du_flash := [], du_flash_until := 0\<rparr> else u)
     in and_then (if dt_large tn then py_nth nav_items (du_selected u) else Ok []) (\<lambda>_. dash_key cfg tn u))"

text \<open>\<open>run_ui\<close>: the state before the loop, and the loop; \<open>None\<close> is a loop still running.\<close>

definition ui_start :: "hawk_config \<Rightarrow> dash_answers \<Rightarrow> int \<Rightarrow> string option \<Rightarrow> py_error + dash_ui" where
  "ui_start cfg an now chat =
     and_then (periodic_poll cfg an now (chat, poll_catalog cfg an cache_init)) (\<lambda>(chat, c).
       Ok \<lparr>du_cache = c, du_chat = chat, du_selected = 0, du_flash = [], du_flash_until = 0\<rparr>)"

fun ui_loop :: "hawk_config \<Rightarrow> dash_turn list \<Rightarrow> dash_ui \<Rightarrow> (py_error + dash_ui) option" where
  "ui_loop cfg [] u = None"
| "ui_loop cfg (tn # tns) u =
     (case dash_turn_step cfg tn u of
        Inl e \<Rightarrow> Some (Err e)
      | Inr (True, u') \<Rightarrow> Some (Ok u')
      | Inr (False, u') \<Rightarrow> ui_loop cfg tns u')"

definition run_ui ::
  "hawk_config \<Rightarrow> dash_answers \<Rightarrow> int \<Rightarrow> string option \<Rightarrow> dash_turn list \<Rightarrow> (py_error + dash_ui) option" where
  "run_ui cfg an now chat tns =
     (case ui_start cfg an now chat of Inl e \<Rightarrow> Some (Err e) | Inr u \<Rightarrow> ui_loop cfg tns u)"

text \<open>\<open>run_check\<close>: everything is polled once; the numbers printed.\<close>

record check_data =
  cd_commands :: int
  cd_grpc_ok :: int
  cd_grpc_bad :: int
  cd_stream_rows :: int
  cd_log_size :: int
  cd_log_delta :: int

definition run_check :: "hawk_config \<Rightarrow> dash_answers \<Rightarrow> string option \<Rightarrow> py_error + check_data" where
  "run_check cfg an chat =
     and_then (refresh_all cfg an (chat, cache_init)) (\<lambda>(_, c).
       Ok \<lparr>cd_commands = int (length (sc_command_catalog c)), cd_grpc_ok = sc_grpc_ok c, cd_grpc_bad = sc_grpc_bad c,
           cd_stream_rows = int (length (sc_stream_rows c)), cd_log_size = sc_log_size c, cd_log_delta = sc_log_delta c\<rparr>)"

text \<open>\<open>json.dumps(data, indent=2)\<close> and \<open>print\<close>.\<close>

definition json_line :: "string \<Rightarrow> string \<Rightarrow> bool \<Rightarrow> string" where
  "json_line key v comma = ''  '' @ [DQ] @ key @ [DQ] @ '': '' @ v @ (if comma then '','' else [])"

definition check_json :: "check_data \<Rightarrow> string list" where
  "check_json d =
     [''{'', json_line ''app'' ([DQ] @ ''hawk-tui'' @ [DQ]) True, json_line ''commands'' (i64_to_string (cd_commands d)) True,
      json_line ''grpc_ok'' (i64_to_string (cd_grpc_ok d)) True, json_line ''grpc_bad'' (i64_to_string (cd_grpc_bad d)) True,
      json_line ''stream_rows'' (i64_to_string (cd_stream_rows d)) True, json_line ''log_size'' (i64_to_string (cd_log_size d)) True,
      json_line ''log_delta'' (i64_to_string (cd_log_delta d)) False, ''}'']"

definition check_output :: "check_data \<Rightarrow> string" where
  "check_output d = join [LF] (check_json d) @ [LF]"

text \<open>\<open>main\<close>: what \<open>--check\<close> prints, or how the loop of the interface ends, if it does.\<close>

datatype dash_result = Checked "py_error + string" | Ran "(py_error + dash_ui) option"

definition dash_main ::
  "(string \<Rightarrow> string option) \<Rightarrow> string \<Rightarrow> bool \<Rightarrow> dash_answers \<Rightarrow> int \<Rightarrow> string option \<Rightarrow> dash_turn list \<Rightarrow> dash_result" where
  "dash_main env base check an now chat tns =
     (let cfg = config_init env base
      in if check then Checked (and_then (run_check cfg an chat) (\<lambda>d. Ok (check_output d)))
         else Ran (run_ui cfg an now chat tns))"

section \<open>Layout\<close>

text \<open>A window made by \<open>derwin\<close>: height, width and position in the window above it.\<close>

record pane =
  pn_h :: int
  pn_w :: int
  pn_y :: int
  pn_x :: int

text \<open>\<open>draw_all\<close>: the four panes, or the message that the terminal is too small.\<close>

definition layout :: "int \<Rightarrow> int \<Rightarrow> pane list option" where
  "layout h w =
     (if h < 28 \<or> w < 150 then None
      else
        let body_h = h - 1; nav_w = 30; chat_w = 30; gutter = 1;
            core_w = w - nav_w - chat_w - 3 * gutter;
            main_w = max 52 ((core_w * 2) div 3);
            ops_w = core_w - main_w;
            (main_w, ops_w) = (if ops_w < 28
               then let main_w = main_w - max 0 (28 - ops_w) in (main_w, core_w - main_w)
               else (main_w, ops_w));
            main_x = nav_w + gutter;
            ops_x = main_x + main_w + gutter;
            chat_x = ops_x + ops_w + gutter
        in Some [\<lparr>pn_h = body_h, pn_w = nav_w, pn_y = 1, pn_x = 0\<rparr>,
                 \<lparr>pn_h = body_h, pn_w = main_w, pn_y = 1, pn_x = main_x\<rparr>,
                 \<lparr>pn_h = body_h, pn_w = ops_w, pn_y = 1, pn_x = ops_x\<rparr>,
                 \<lparr>pn_h = body_h, pn_w = chat_w, pn_y = 1, pn_x = chat_x\<rparr>])"

text \<open>\<open>draw_main\<close> and \<open>draw_ops\<close>: the upper and the lower half of a pane.\<close>

definition halves :: "int \<Rightarrow> pane \<Rightarrow> pane list" where
  "halves least p =
     (let inner_h = pn_h p - 2; split_gap = 1;
          top_h = max least ((inner_h - split_gap) div 2);
          bot_h = max least (inner_h - top_h - split_gap)
      in [\<lparr>pn_h = top_h, pn_w = pn_w p - 2, pn_y = 1, pn_x = 1\<rparr>,
          \<lparr>pn_h = bot_h, pn_w = pn_w p - 2, pn_y = 1 + top_h + split_gap, pn_x = 1\<rparr>])"

text \<open>\<open>safe_add\<close>: the cells written, as row, first column and number, if any.\<close>

definition safe_add :: "int \<Rightarrow> int \<Rightarrow> int \<Rightarrow> int \<Rightarrow> int \<Rightarrow> (int \<times> int \<times> int) option" where
  "safe_add h w y x len =
     (if y < 0 \<or> h \<le> y \<or> w \<le> x then None
      else let max_len = max 0 (w - x - 1) in
        if max_len \<le> 0 then None else Some (y, x, min len max_len))"

text \<open>The panes of a terminal that is large enough; the correction of the widths is never needed.\<close>

lemma layout_large:
  assumes "28 \<le> h" and "150 \<le> w"
  shows "layout h w = (let core = w - 63 in
     Some [\<lparr>pn_h = h - 1, pn_w = 30, pn_y = 1, pn_x = 0\<rparr>,
           \<lparr>pn_h = h - 1, pn_w = (core * 2) div 3, pn_y = 1, pn_x = 31\<rparr>,
           \<lparr>pn_h = h - 1, pn_w = core - (core * 2) div 3, pn_y = 1, pn_x = 32 + (core * 2) div 3\<rparr>,
           \<lparr>pn_h = h - 1, pn_w = 30, pn_y = 1, pn_x = 33 + core\<rparr>])"
proof -
  define core where "core = w - 63"
  have "87 \<le> core" using assms by (simp add: core_def)
  then have "max 52 ((core * 2) div 3) = (core * 2) div 3" "\<not> core - (core * 2) div 3 < 28"
    by (simp_all add: max_def)
  with assms show ?thesis by (simp add: layout_def Let_def core_def)
qed

lemma safe_add_clips:
  "safe_add h w y x len = Some (y', x', n) \<Longrightarrow> y' = y \<and> x' = x \<and> 0 \<le> y \<and> y < h \<and> x + n < w"
  by (auto simp: safe_add_def Let_def split: if_splits)

section \<open>Invariant\<close>

definition cache_ok :: "state_cache \<Rightarrow> bool" where
  "cache_ok c \<longleftrightarrow>
     (if sc_command_catalog c = [] then sc_selected_command c = 0
      else 0 \<le> sc_selected_command c \<and> sc_selected_command c < int (length (sc_command_catalog c)))
     \<and> length (sc_control_tail c) \<le> 400 \<and> length (sc_log_tail c) \<le> 200 \<and> length (sc_chat_tail c) \<le> 200
     \<and> length (sc_command_output c) \<le> 80
     \<and> sc_grpc_ok c = int (length (filter (\<lambda>r. gr_status r = ''SERVING'') (sc_grpc_rows c)))
     \<and> sc_grpc_ok c + sc_grpc_bad c = int (length (sc_grpc_rows c))
     \<and> 0 \<le> sc_log_delta c"

definition dash_ok :: "dash_ui \<Rightarrow> bool" where
  "dash_ok u \<longleftrightarrow> cache_ok (du_cache u) \<and> 0 \<le> du_selected u \<and> du_selected u < int (length nav_items)"

named_theorems dash_keeps \<open>operations that keep the invariant of the cache\<close>

lemma length_last_n [simp]: "length (last_n n xs) = min n (length xs)"
  by (simp add: last_n_def)

lemma py_nth_ok: "0 \<le> i \<Longrightarrow> i < int (length xs) \<Longrightarrow> py_nth xs i = Ok (xs ! nat i)"
  by (simp add: py_nth_def)

lemma tail_lines_length: "length (tail_lines f n) \<le> n"
  by (simp add: tail_lines_def split: option.splits)

lemma cache_ok_init: "cache_ok cache_init"
  by (simp add: cache_ok_def cache_init_def)

lemma ctl_keeps [dash_keeps]: "cache_ok c \<Longrightarrow> cache_ok (ctl s l c)"
  by (simp add: cache_ok_def ctl_def)

lemma poll_catalog_keeps [dash_keeps]: "cache_ok c \<Longrightarrow> cache_ok (poll_catalog cfg an c)"
  by (auto simp: cache_ok_def poll_catalog_def Let_def split: prod.splits if_splits)

lemma fold_serving:
  "fold (\<lambda>r (ok, bad). if gr_status r = ''SERVING'' then (ok + 1, bad) else (ok, bad + 1)) rows (a, b) =
     (a + int (length (filter (\<lambda>r. gr_status r = ''SERVING'') rows)),
      b + int (length (filter (\<lambda>r. gr_status r \<noteq> ''SERVING'') rows)))"
  by (induction rows arbitrary: a b) auto

lemma poll_grpc_cache:
  assumes "run_capture an [cf_bin cfg, ''run'', ''grpc_health''] = (code, out)"
  defines "rows \<equiv> if code = 0 \<and> out \<noteq> [] then grpc_rows_of an out else []"
  shows "poll_grpc cfg an c = c\<lparr>sc_grpc_rows := rows,
      sc_grpc_ok := int (length (filter (\<lambda>r. gr_status r = ''SERVING'') rows)),
      sc_grpc_bad := int (length (filter (\<lambda>r. gr_status r \<noteq> ''SERVING'') rows)), sc_grpc_last := an_clock an\<rparr>"
  unfolding poll_grpc_def assms(1) Let_def prod.case rows_def [symmetric] fold_serving by simp

lemma poll_grpc_keeps [dash_keeps]: "cache_ok c \<Longrightarrow> cache_ok (poll_grpc cfg an c)"
proof -
  obtain code out where r: "run_capture an [cf_bin cfg, ''run'', ''grpc_health''] = (code, out)" by force
  define rows where "rows = (if code = 0 \<and> out \<noteq> [] then grpc_rows_of an out else [])"
  have "length (filter (\<lambda>r. gr_status r = ''SERVING'') rows)
      + length (filter (\<lambda>r. gr_status r \<noteq> ''SERVING'') rows) = length rows"
    by (rule sum_length_filter_compl)
  then show "cache_ok c \<Longrightarrow> cache_ok (poll_grpc cfg an c)"
    unfolding poll_grpc_cache [OF r] rows_def [symmetric] by (simp add: cache_ok_def flip: of_nat_add)
qed

lemma poll_streams_keeps [dash_keeps]: "cache_ok c \<Longrightarrow> cache_ok (poll_streams cfg an c)"
  by (auto simp: cache_ok_def poll_streams_def Let_def split: prod.splits)

lemma cache_ok_output:
  "cache_ok c \<Longrightarrow> length out \<le> 80 \<Longrightarrow> cache_ok (c\<lparr>sc_command_output := out\<rparr>)"
  "cache_ok c \<Longrightarrow> length out \<le> 80 \<Longrightarrow> cache_ok (c\<lparr>sc_command_output := out, sc_command_last := t\<rparr>)"
  by (simp_all add: cache_ok_def)

lemma poll_command_keeps:
  assumes "cache_ok c"
  shows "\<exists>c'. poll_command cfg an c = Ok c' \<and> cache_ok c'"
proof (cases "sc_command_catalog c = []")
  case True
  then show ?thesis by (simp add: poll_command_def cache_ok_output [OF assms])
next
  case False
  with assms have i: "0 \<le> sc_selected_command c" "sc_selected_command c < int (length (sc_command_catalog c))"
    unfolding cache_ok_def by presburger+
  obtain code out where r: "run_capture an [cf_bin cfg, ''run'',
      cr_id (sc_command_catalog c ! nat (sc_selected_command c))] = (code, out)"
    by force
  define shown where "shown = (if code = 0 \<and> out \<noteq> [] then last_n 80 (splitlines out)
      else if code = 0 then [''(no output)'']
      else [''command failed: '' @ cr_id (sc_command_catalog c ! nat (sc_selected_command c)),
            if out \<noteq> [] then out else ''unknown error''])"
  have "length shown \<le> 80" unfolding shown_def by simp
  moreover have "poll_command cfg an c = Ok (c\<lparr>sc_command_output := shown, sc_command_last := an_clock an\<rparr>)"
    unfolding poll_command_def py_nth_ok [OF i] and_then.simps Let_def r prod.case shown_def using False by simp
  ultimately show ?thesis using cache_ok_output(2) [OF assms] by blast
qed

lemma poll_logs_keeps [dash_keeps]:
  "cache_ok c \<Longrightarrow> cache_ok (snd (poll_logs_and_chat an (chat, c)))"
  using tail_lines_length [of _ 200]
  by (auto simp: cache_ok_def poll_logs_and_chat_def Let_def split: option.splits)

lemma daemon_action_keeps [dash_keeps]: "cache_ok c \<Longrightarrow> cache_ok (daemon_action cfg an a c)"
proof -
  have "cache_ok c \<Longrightarrow> cache_ok (fold (ctl s) ls c)" for s ls c
    by (induction ls arbitrary: c) (simp_all add: ctl_keeps)
  then show "cache_ok c \<Longrightarrow> cache_ok (daemon_action cfg an a c)"
    by (auto simp: daemon_action_def Let_def ctl_keeps split: prod.splits)
qed

lemma polled_at_keeps [dash_keeps]:
  "cache_ok (c\<lparr>sc_last_grpc_poll := t\<rparr>) = cache_ok c" "cache_ok (c\<lparr>sc_last_stream_poll := t\<rparr>) = cache_ok c"
  "cache_ok (c\<lparr>sc_last_cmd_poll := t\<rparr>) = cache_ok c" "cache_ok (c\<lparr>sc_last_log_poll := t\<rparr>) = cache_ok c"
  by (simp_all add: cache_ok_def)

lemma periodic_poll_keeps:
  assumes "cache_ok c"
  shows "\<exists>chat' c'. periodic_poll cfg an now (chat, c) = Ok (chat', c') \<and> cache_ok c'"
proof -
  define c1 where "c1 = (if 2000000 \<le> now - sc_last_grpc_poll c
      then (poll_grpc cfg an c)\<lparr>sc_last_grpc_poll := now\<rparr> else c)"
  define c2 where "c2 = (if 2000000 \<le> now - sc_last_stream_poll c1
      then (poll_streams cfg an c1)\<lparr>sc_last_stream_poll := now\<rparr> else c1)"
  have ok2: "cache_ok c2" using assms by (simp add: c1_def c2_def dash_keeps)
  from poll_command_keeps [OF this] obtain c' where "poll_command cfg an c2 = Ok c'" "cache_ok c'" by blast
  with ok2 have "\<exists>c3. (if 2500000 \<le> now - sc_last_cmd_poll c2
      then and_then (poll_command cfg an c2) (\<lambda>c. Ok (c\<lparr>sc_last_cmd_poll := now\<rparr>)) else Ok c2) = Ok c3 \<and> cache_ok c3"
    by (simp add: dash_keeps)
  then obtain c3 where c3: "(if 2500000 \<le> now - sc_last_cmd_poll c2
      then and_then (poll_command cfg an c2) (\<lambda>c. Ok (c\<lparr>sc_last_cmd_poll := now\<rparr>)) else Ok c2) = Ok c3" "cache_ok c3"
    by blast
  obtain chat' c4 where c4: "poll_logs_and_chat an (chat, c3) = (chat', c4)" by force
  with poll_logs_keeps [OF c3(2), of an chat] have "cache_ok c4" by simp
  with c3(2) show ?thesis
    unfolding periodic_poll_def Let_def prod.case c1_def [symmetric] c2_def [symmetric] c3(1) and_then.simps
    by (simp add: c4 dash_keeps)
qed

lemma refresh_all_keeps:
  assumes "cache_ok c"
  shows "\<exists>chat' c'. refresh_all cfg an (chat, c) = Ok (chat', c') \<and> cache_ok c'"
proof -
  have "cache_ok (poll_streams cfg an (poll_grpc cfg an (poll_catalog cfg an c)))"
    using assms by (intro dash_keeps)
  from poll_command_keeps [OF this] obtain c' where
    c': "poll_command cfg an (poll_streams cfg an (poll_grpc cfg an (poll_catalog cfg an c))) = Ok c'" "cache_ok c'"
    by blast
  with poll_logs_keeps [OF c'(2), of an chat] show ?thesis
    by (cases "poll_logs_and_chat an (chat, c')") (simp add: refresh_all_def Let_def)
qed

lemma dash_ok_simps:
  "dash_ok (u\<lparr>du_flash := f\<rparr>) = dash_ok u" "dash_ok (u\<lparr>du_flash_until := t\<rparr>) = dash_ok u"
  "dash_ok (u\<lparr>du_chat := chat\<rparr>) = dash_ok u" "dash_ok (with_flash tn text d u) = dash_ok u"
  by (simp_all add: dash_ok_def with_flash_def)

lemma dash_ok_cache: "dash_ok u \<Longrightarrow> cache_ok c \<Longrightarrow> dash_ok (u\<lparr>du_cache := c\<rparr>)"
  by (simp add: dash_ok_def)

lemma dash_ok_chat_cache: "dash_ok u \<Longrightarrow> cache_ok c \<Longrightarrow> dash_ok (u\<lparr>du_chat := chat, du_cache := c\<rparr>)"
  by (simp add: dash_ok_def)

lemma choose_command_keeps:
  assumes "dash_ok u"
  shows "\<exists>u'. choose_command tn d u = Ok u' \<and> dash_ok u'"
proof (cases "sc_command_catalog (du_cache u) = []")
  case True
  with assms show ?thesis by (simp add: choose_command_def)
next
  case False
  let ?n = "int (length (sc_command_catalog (du_cache u)))"
  let ?i = "(sc_selected_command (du_cache u) + d) mod ?n"
  let ?c = "(du_cache u)\<lparr>sc_selected_command := ?i\<rparr>"
  have i: "0 \<le> ?i" "?i < ?n" using False by simp_all
  from assms False i have "cache_ok ?c" by (simp add: cache_ok_def dash_ok_def)
  then have "dash_ok (u\<lparr>du_cache := ?c\<rparr>)" by (rule dash_ok_cache [OF assms])
  with False show ?thesis
    by (simp add: choose_command_def Let_def py_nth_ok [OF i] dash_ok_simps)
qed

lemma add_note_keeps: "dash_ok u \<Longrightarrow> dash_ok (add_note tn u)"
proof -
  assume u: "dash_ok u"
  then have c: "cache_ok (du_cache u)" by (simp add: dash_ok_def)
  show "dash_ok (add_note tn u)"
  proof (cases "py_strip (dt_note tn) = []")
    case True
    with u show ?thesis by (simp add: add_note_def dash_ok_simps)
  next
    case False
    obtain chat c' where p: "poll_logs_and_chat (dt_act tn)
        (append_chat (dt_stamp tn) (py_strip (dt_note tn)) (du_chat u), du_cache u) = (chat, c')"
      by force
    with poll_logs_keeps [OF c, of "dt_act tn"] have "cache_ok c'" by (metis snd_conv)
    with False u show ?thesis by (simp add: add_note_def Let_def p dash_ok_simps dash_ok_chat_cache)
  qed
qed

lemma digit_key: "is_key key ''1234'' \<Longrightarrow> 0 \<le> key - ord_of CHR ''0'' - 1 \<and> key - ord_of CHR ''0'' - 1 < 4"
  by (auto simp: is_key_def ord_of_def)

lemma nav_items_length [simp]: "length nav_items = 4"
  by (simp add: nav_items_def)

text \<open>Every key is handled without an exception, and only the quit keys end the loop.\<close>

lemma dash_key_keeps:
  assumes "dash_ok u"
  shows "\<exists>u'. dash_key cfg tn u = Ok (is_key (dt_key tn) ''qQ'', u') \<and> dash_ok u'"
proof -
  have quit: "\<not> is_key (- 1) ''qQ''" by (simp add: is_key_def ord_of_def)
  have c: "cache_ok (du_cache u)" using assms by (simp add: dash_ok_def)
  have sel: "dash_ok (u\<lparr>du_selected := i\<rparr>)" if "0 \<le> i" "i < 4" for i
    using assms that by (simp add: dash_ok_def)
  have act: "dash_ok (u\<lparr>du_cache := daemon_action cfg an a (du_cache u)\<rparr>)" for an a
    by (intro dash_ok_cache assms dash_keeps c)
  obtain c1 where c1: "poll_command cfg (dt_act tn) (du_cache u) = Ok c1" "cache_ok c1"
    using poll_command_keeps [OF c] by blast
  obtain chat c2 where c2: "refresh_all cfg (dt_act tn) (du_chat u, du_cache u) = Ok (chat, c2)" "cache_ok c2"
    using refresh_all_keeps [OF c] by blast
  obtain u1 u2 where u12: "choose_command tn (- 1) u = Ok u1" "dash_ok u1" "choose_command tn 1 u = Ok u2" "dash_ok u2"
    using choose_command_keeps [OF assms] by metis
  note oks = assms sel act u12 add_note_keeps [OF assms] dash_ok_cache [OF assms c1(2)]
    dash_ok_chat_cache [OF assms c2(2)]
  show ?thesis
  proof (cases "is_key (dt_key tn) ''qQ''")
    case True
    with quit have "dt_key tn \<noteq> - 1" by auto
    with True assms show ?thesis by (simp add: dash_key_def Let_def)
  next
    case False
    have "\<exists>u'. dash_key cfg tn u = Ok (False, u') \<and> dash_ok u'"
      unfolding dash_key_def Let_def using False digit_key [of "dt_key tn"]
      by (simp add: c1 c2 oks dash_ok_simps del: One_nat_def)
    with False show ?thesis by simp
  qed
qed

lemma dash_turn_step_keeps:
  assumes "dash_ok u"
  shows "\<exists>u'. dash_turn_step cfg tn u = Ok (is_key (dt_key tn) ''qQ'', u') \<and> dash_ok u'"
proof -
  have c: "cache_ok (du_cache u)" using assms by (simp add: dash_ok_def)
  from periodic_poll_keeps [OF c] obtain chat c' where
    p: "periodic_poll cfg (dt_poll tn) (dt_poll_now tn) (du_chat u, du_cache u) = Ok (chat, c')" "cache_ok c'"
    by blast
  define u1 where "u1 = u\<lparr>du_chat := chat, du_cache := c'\<rparr>"
  define u2 where "u2 = (if du_flash_until u1 \<noteq> 0 \<and> du_flash_until u1 < dt_now tn
      then u1\<lparr>du_flash := [], du_flash_until := 0\<rparr> else u1)"
  have u2: "dash_ok u2"
    using dash_ok_chat_cache [OF assms p(2)] by (simp add: u1_def u2_def dash_ok_simps)
  then have "py_nth nav_items (du_selected u2) = Ok (nav_items ! nat (du_selected u2))"
    by (intro py_nth_ok) (simp_all add: dash_ok_def)
  then have "dash_turn_step cfg tn u = dash_key cfg tn u2"
    unfolding dash_turn_step_def p(1) and_then.simps prod.case Let_def u1_def [symmetric] u2_def [symmetric] by simp
  with dash_key_keeps [OF u2] show ?thesis by simp
qed

lemma ui_start_keeps: "\<exists>u. ui_start cfg an now chat = Ok u \<and> dash_ok u"
proof -
  have "cache_ok (poll_catalog cfg an cache_init)"
    by (intro dash_keeps cache_ok_init)
  from periodic_poll_keeps [OF this] obtain chat' c where
    "periodic_poll cfg an now (chat, poll_catalog cfg an cache_init) = Ok (chat', c)" "cache_ok c"
    by blast
  then show ?thesis by (simp add: ui_start_def dash_ok_def)
qed

definition dash_start :: "hawk_config \<Rightarrow> dash_ui \<Rightarrow> bool" where
  "dash_start cfg u \<longleftrightarrow> (\<exists>an now chat. ui_start cfg an now chat = Ok u)"

definition dash_step :: "hawk_config \<Rightarrow> dash_ui \<Rightarrow> dash_ui \<Rightarrow> bool" where
  "dash_step cfg u u' \<longleftrightarrow> (\<exists>tn. dash_turn_step cfg tn u = Ok (False, u'))"

lemma dash_ok_start: "dash_start cfg u \<Longrightarrow> dash_ok u"
  by (metis dash_start_def ui_start_keeps sum.inject(2))

lemma dash_ok_step: "dash_ok u \<Longrightarrow> dash_step cfg u u' \<Longrightarrow> dash_ok u'"
  by (metis dash_step_def dash_turn_step_keeps sum.inject(2) prod.inject)

interpretation dash: invariant_system "dash_start cfg" "dash_step cfg" dash_ok for cfg
  by unfold_locales (erule dash_ok_start, erule (1) dash_ok_step)

lemma ui_loop_result:
  "dash_ok u \<Longrightarrow>
     (case ui_loop cfg tns u of
        None \<Rightarrow> \<not> list_ex (\<lambda>tn. is_key (dt_key tn) ''qQ'') tns
      | Some r \<Rightarrow> list_ex (\<lambda>tn. is_key (dt_key tn) ''qQ'') tns \<and> (\<exists>u'. r = Ok u' \<and> dash_ok u'))"
proof (induction tns arbitrary: u)
  case (Cons tn tns)
  obtain u' where u': "dash_turn_step cfg tn u = Ok (is_key (dt_key tn) ''qQ'', u')" "dash_ok u'"
    using dash_turn_step_keeps [OF Cons.prems] by blast
  show ?case
  proof (cases "is_key (dt_key tn) ''qQ''")
    case True
    with u' show ?thesis by simp
  next
    case False
    with u' have "ui_loop cfg (tn # tns) u = ui_loop cfg tns u'" by simp
    with Cons.IH [OF u'(2)] False show ?thesis by (cases "ui_loop cfg tns u'") simp_all
  qed
qed simp

section \<open>Properties\<close>


text \<open>
  C21: in every state the dashboard reaches, the chosen page and the chosen command are within
  their lists, the tails are bounded (400 control lines, 200 log and chat lines, 80 lines of
  output), the two gRPC counters are the numbers of serving and of other rows, and the
  growth of the log is not negative.
\<close>

theorem dash_invariant:
  assumes "reach (dash_start cfg) (dash_step cfg) u"
  shows "0 \<le> du_selected u \<and> du_selected u < 4
    \<and> (let c = du_cache u in
       (if sc_command_catalog c = [] then sc_selected_command c = 0
        else 0 \<le> sc_selected_command c \<and> sc_selected_command c < int (length (sc_command_catalog c)))
       \<and> length (sc_control_tail c) \<le> 400 \<and> length (sc_log_tail c) \<le> 200 \<and> length (sc_chat_tail c) \<le> 200
       \<and> length (sc_command_output c) \<le> 80
       \<and> sc_grpc_ok c = int (length (filter (\<lambda>r. gr_status r = ''SERVING'') (sc_grpc_rows c)))
       \<and> sc_grpc_ok c + sc_grpc_bad c = int (length (sc_grpc_rows c))
       \<and> 0 \<le> sc_log_delta c)"
proof -
  from dash.reach_I [OF assms] have "cache_ok (du_cache u)" "0 \<le> du_selected u" "du_selected u < 4"
    by (simp_all add: dash_ok_def)
  then show ?thesis unfolding Let_def cache_ok_def [symmetric] by blast
qed

definition sample_cfg :: hawk_config where
  "sample_cfg = config_init (\<lambda>_. None) ''/h''"

text \<open>A catalog of one command, and one serving endpoint.\<close>

definition sample_answers :: dash_answers where
  "sample_answers = \<lparr>an_run = (\<lambda>cmd. if last cmd = ''list'' then Completed 0 (''a|A|awk|x'' @ [LF]) []
       else Completed 0 (''e'' @ [TAB] @ ''SERVING'' @ [TAB] @ ''1ms'' @ [TAB] @ ''fake'' @ [LF]) []),
     an_log = Some (3, ''10:00:00'', ''ab'' @ [LF]), an_clock = ''10:00:01'', an_upper = (\<lambda>s. s)\<rparr>"

definition sample_ui :: dash_ui where
  "sample_ui = projr (ui_start sample_cfg sample_answers 3000000 None)"

lemma sample_ui_start: "dash_start sample_cfg sample_ui"
proof -
  obtain u where "ui_start sample_cfg sample_answers 3000000 None = Ok u" using ui_start_keeps by blast
  then show ?thesis by (auto simp: dash_start_def sample_ui_def)
qed

theorem dash_invariant_witness:
  "sc_command_catalog (du_cache sample_ui) \<noteq> []
   \<and> sc_selected_command (du_cache sample_ui) < int (length (sc_command_catalog (du_cache sample_ui)))
   \<and> sc_grpc_ok (du_cache sample_ui) + sc_grpc_bad (du_cache sample_ui) = int (length (sc_grpc_rows (du_cache sample_ui)))
   \<and> length (sc_grpc_rows (du_cache sample_ui)) = 1"
proof -
  have e: "sc_command_catalog (du_cache sample_ui) \<noteq> []" "length (sc_grpc_rows (du_cache sample_ui)) = 1"
    by code_simp+
  from dash_invariant [OF reach_start [where start = "dash_start sample_cfg" and step = "dash_step sample_cfg", OF sample_ui_start]]
  show ?thesis unfolding Let_def using e by presburger
qed

text \<open>
  On a terminal of at least 150 by 28 cells the four panes fill the width with one free
  column between neighbours, none is narrower than 28 columns, and the halves of the main
  and operations panes lie inside their pane without overlap; on a smaller terminal nothing
  is laid out.
\<close>

theorem layout_fits:
  "case layout h w of
     None \<Rightarrow> h < 28 \<or> w < 150
   | Some panes \<Rightarrow> 28 \<le> h \<and> 150 \<le> w
       \<and> map pn_x panes = [0, pn_w (panes ! 0) + 1, pn_x (panes ! 1) + pn_w (panes ! 1) + 1,
                           pn_x (panes ! 2) + pn_w (panes ! 2) + 1]
       \<and> pn_x (panes ! 3) + pn_w (panes ! 3) = w
       \<and> list_all (\<lambda>p. 28 \<le> pn_w p \<and> pn_y p = 1 \<and> pn_y p + pn_h p = h) panes
       \<and> list_all (\<lambda>(least, p). case halves least p of
             [upper, lower] \<Rightarrow> 0 < pn_h upper \<and> 0 < pn_h lower \<and> pn_y upper + pn_h upper < pn_y lower
                 \<and> pn_y lower + pn_h lower < pn_h p \<and> pn_x upper + pn_w upper < pn_w p
           | _ \<Rightarrow> False) [(3, panes ! 1), (5, panes ! 2)]"
proof (cases "h < 28 \<or> w < 150")
  case True
  then show ?thesis by (simp add: layout_def)
next
  case False
  define core where "core = w - 63"
  have core: "87 \<le> core" "w = core + 63" using False by (simp_all add: core_def)
  have l: "layout h w = Some [\<lparr>pn_h = h - 1, pn_w = 30, pn_y = 1, pn_x = 0\<rparr>,
      \<lparr>pn_h = h - 1, pn_w = (core * 2) div 3, pn_y = 1, pn_x = 31\<rparr>,
      \<lparr>pn_h = h - 1, pn_w = core - (core * 2) div 3, pn_y = 1, pn_x = 32 + (core * 2) div 3\<rparr>,
      \<lparr>pn_h = h - 1, pn_w = 30, pn_y = 1, pn_x = 33 + core\<rparr>]"
    using layout_large [of h w] False unfolding core_def by simp
  have "58 \<le> (core * 2) div 3" "28 \<le> core - (core * 2) div 3" using core(1) by presburger+
  moreover have "12 \<le> (h - 4) div 2" "(h - 4) div 2 * 2 \<le> h - 4" "h - 5 \<le> (h - 4) div 2 * 2"
    using False by presburger+
  ultimately show ?thesis
    unfolding l using False core(2) by (simp add: halves_def Let_def max_def)
qed

end
