(* ===== verification/Text_Wrap.thy ===== *)
theory Text_Wrap
  imports Rust_Str
begin

text \<open>
  Line wrapping of the Python dashboard: \<open>wrap_lines\<close> of \<open>hawk_tui.py\<close> with what it uses of
  \<open>textwrap.wrap\<close>, that is tabs expanded, white space kept, long words broken and hyphens
  ignored. Widths count characters.
\<close>

section \<open>The wrapper\<close>

text \<open>\<open>str.expandtabs()\<close> from a column: every tab goes to the next multiple of eight.\<close>

fun expand_tabs :: "nat \<Rightarrow> string list \<Rightarrow> string list" where
  "expand_tabs col [] = []"
| "expand_tabs col (c # cs) =
     (if c = [TAB] then replicate (8 - col mod 8) '' '' @ expand_tabs (col + (8 - col mod 8)) cs
      else if c = [LF] \<or> c = [CR] then c # expand_tabs 0 cs
      else c # expand_tabs (Suc col) cs)"

text \<open>The chunks: maximal runs of white space and of other characters.\<close>

definition wrap_space :: "string \<Rightarrow> bool" where
  "wrap_space c \<longleftrightarrow> c \<in> set [[TAB], [LF], [CHR 0x0B], [CHR 0x0C], [CR], '' '']"

fun add_run :: "string \<Rightarrow> string list list \<Rightarrow> string list list" where
  "add_run c [] = [[c]]"
| "add_run c (r # rs) = (if wrap_space c = wrap_space (hd r) then (c # r) # rs else [c] # r # rs)"

definition split_chunks :: "string list \<Rightarrow> string list list" where
  "split_chunks cs = foldr add_run cs []"

text \<open>The chunks that fit on a line on which \<open>n\<close> characters stand, and the rest.\<close>

fun fill_line :: "nat \<Rightarrow> nat \<Rightarrow> 'a list list \<Rightarrow> 'a list list \<times> 'a list list" where
  "fill_line width n [] = ([], [])"
| "fill_line width n (c # cs) =
     (if n + length c \<le> width
      then let (taken, rest) = fill_line width (n + length c) cs in (c # taken, rest)
      else ([], c # cs))"

text \<open>The first line; a chunk that fits on no line is broken where the line ends.\<close>

definition first_line :: "nat \<Rightarrow> 'a list list \<Rightarrow> 'a list \<times> 'a list list" where
  "first_line width cs =
     (let (taken, rest) = fill_line width 0 cs; line = concat taken in
      case rest of
        c # rest' \<Rightarrow>
          if width < length c
          then let space_left = width - length line in (line @ take space_left c, drop space_left c # rest')
          else (line, rest)
      | [] \<Rightarrow> (line, []))"

lemma fill_line_parts:
  assumes "fill_line width n cs = (taken, rest)"
  shows "cs = taken @ rest" "n \<le> width \<Longrightarrow> n + length (concat taken) \<le> width"
    "taken = [] \<Longrightarrow> cs \<noteq> [] \<Longrightarrow> width < n + length (hd cs)"
proof -
  have "cs = taken @ rest \<and> (n \<le> width \<longrightarrow> n + length (concat taken) \<le> width)
     \<and> (taken = [] \<longrightarrow> cs \<noteq> [] \<longrightarrow> width < n + length (hd cs))"
    using assms
  proof (induction cs arbitrary: n taken rest)
    case (Cons c cs)
    show ?case
    proof (cases "n + length c \<le> width")
      case True
      obtain t r where tr: "fill_line width (n + length c) cs = (t, r)" by force
      with True Cons.prems have "taken = c # t" "rest = r" by simp_all
      with Cons.IH [OF tr] True show ?thesis by simp
    next
      case False
      with Cons.prems show ?thesis by auto
    qed
  qed simp
  then show "cs = taken @ rest" "n \<le> width \<Longrightarrow> n + length (concat taken) \<le> width"
    "taken = [] \<Longrightarrow> cs \<noteq> [] \<Longrightarrow> width < n + length (hd cs)" by blast+
qed

lemma first_line_cases:
  obtains taken rest where "cs = taken @ rest" "length (concat taken) \<le> width"
      "first_line width cs = (concat taken, rest)" "cs = [] \<or> taken \<noteq> []"
  | taken c rest where "cs = taken @ c # rest" "length (concat taken) \<le> width" "width < length c"
      "first_line width cs = (concat taken @ take (width - length (concat taken)) c, drop (width - length (concat taken)) c # rest)"
proof -
  obtain taken rest where tr: "fill_line width 0 cs = (taken, rest)" by force
  note p = fill_line_parts [OF tr]
  show thesis
  proof (cases rest)
    case Nil
    with p tr that(1) [of taken "[]"] show thesis by (auto simp: first_line_def)
  next
    case (Cons c r)
    show thesis
    proof (cases "width < length c")
      case True
      with Cons p tr that(2) [of taken c r] show thesis by (simp add: first_line_def Let_def)
    next
      case False
      with Cons p(1,3) have "taken \<noteq> []" by auto
      with False Cons p tr that(1) [of taken rest] show thesis by (simp add: first_line_def Let_def)
    qed
  qed
qed

lemma first_line_smaller:
  "cs \<noteq> [] \<Longrightarrow> 0 < width \<Longrightarrow> first_line width cs = (line, rest) \<Longrightarrow>
   length (concat rest) + length rest < length (concat cs) + length cs"
  by (rule first_line_cases [of cs width]) (auto simp: length_greater_0_conv [symmetric] simp del: length_greater_0_conv)

text \<open>\<open>TextWrapper._wrap_chunks\<close>; the dashboard never asks for a width of 0.\<close>

function wrap_chunks :: "nat \<Rightarrow> 'a list list \<Rightarrow> 'a list list" where
  "wrap_chunks width cs =
     (if cs = [] \<or> width = 0 then []
      else let (line, rest) = first_line width cs in line # wrap_chunks width rest)"
  by pat_completeness auto
termination
  by (relation "measure (\<lambda>(width, cs). length (concat cs) + length cs)") (auto dest: first_line_smaller [OF _ _ sym])

declare wrap_chunks.simps [simp del]

definition wrap_chars :: "nat \<Rightarrow> string \<Rightarrow> string list list" where
  "wrap_chars width s = wrap_chunks width (split_chunks (expand_tabs 0 (chars s)))"

definition wrap_lines :: "string \<Rightarrow> int \<Rightarrow> string list" where
  "wrap_lines s width =
     (if width \<le> 1 then [concat (take (nat (max 0 width)) (chars s))]
      else let parts = map concat (wrap_chars (nat width) s) in if parts = [] then [[]] else parts)"

section \<open>Nothing is lost\<close>

lemma first_line_line:
  assumes "first_line width cs = (line, rest)"
  shows "line @ concat rest = concat cs" "length line \<le> width"
    "list_all (\<lambda>c. c \<noteq> []) cs \<Longrightarrow> list_all (\<lambda>c. c \<noteq> []) rest"
    "list_all (\<lambda>c. c \<noteq> []) cs \<Longrightarrow> cs \<noteq> [] \<Longrightarrow> 0 < width \<Longrightarrow> line \<noteq> []"
  using assms by (rule_tac [!] first_line_cases [of cs width]) (auto simp: concat_eq_Nil_conv list_all_iff)

lemma wrap_chunks_lines:
  assumes "0 < width" and "list_all (\<lambda>c. c \<noteq> []) cs"
  shows "concat (wrap_chunks width cs) = concat cs \<and> list_all (\<lambda>l. l \<noteq> [] \<and> length l \<le> width) (wrap_chunks width cs)"
  using assms
proof (induction width cs rule: wrap_chunks.induct)
  case (1 width cs)
  show ?case
  proof (cases "cs = []")
    case False
    obtain line rest where l: "first_line width cs = (line, rest)" by force
    note fl = first_line_line [OF l]
    have "wrap_chunks width cs = line # wrap_chunks width rest"
      using False 1(2) l by (subst wrap_chunks.simps) simp
    moreover have "concat (wrap_chunks width rest) = concat rest
        \<and> list_all (\<lambda>l. l \<noteq> [] \<and> length l \<le> width) (wrap_chunks width rest)"
      using 1 False l fl(3) by auto
    ultimately show ?thesis using fl False 1(2,3) by auto
  qed (simp add: wrap_chunks.simps)
qed

lemma concat_map_concat: "concat (map concat xss) = concat (concat xss)"
  by (induction xss) simp_all

lemma add_run_parts: "list_all (\<lambda>c. c \<noteq> []) rs \<Longrightarrow> concat (add_run c rs) = c # concat rs \<and> list_all (\<lambda>c. c \<noteq> []) (add_run c rs)"
  by (cases rs) simp_all

lemma split_chunks_parts: "concat (split_chunks cs) = cs \<and> list_all (\<lambda>c. c \<noteq> []) (split_chunks cs)"
  by (induction cs) (simp_all add: split_chunks_def add_run_parts)

lemma wrap_chars_lines:
  assumes "0 < width"
  shows "concat (wrap_chars width s) = expand_tabs 0 (chars s)"
    "list_all (\<lambda>l. l \<noteq> [] \<and> length l \<le> width) (wrap_chars width s)"
  using wrap_chunks_lines [OF assms, of "split_chunks (expand_tabs 0 (chars s))"] split_chunks_parts
  by (simp_all add: wrap_chars_def)

lemma expand_tabs_id: "[TAB] \<notin> set cs \<Longrightarrow> expand_tabs col cs = cs"
  by (induction cs arbitrary: col) auto

lemma expand_tabs_whole: "list_all whole_char cs \<Longrightarrow> list_all whole_char (expand_tabs col cs)"
proof (induction cs arbitrary: col)
  case (Cons c cs)
  have "whole_char '' ''" by (simp add: whole_char_ascii)
  with Cons show ?case by (auto simp: list_all_iff)
qed simp

text \<open>The lines of a text of whole characters: their characters, and how many.\<close>

lemma wrap_chars_whole:
  assumes "0 < width" and "list_all whole_char (chars s)" and "l \<in> set (wrap_chars width s)"
  shows "chars (concat l) = l"
proof -
  have "list_all whole_char (concat (wrap_chars width s))"
    unfolding wrap_chars_lines(1) [OF assms(1)] by (rule expand_tabs_whole [OF assms(2)])
  with assms(3) have "list_all whole_char l" by (auto simp: list_all_iff)
  then show ?thesis by (rule chars_concat)
qed

lemma wrap_lines_whole:
  assumes "1 < width" and "list_all whole_char (chars s)"
  shows "concat (wrap_lines s width) = concat (expand_tabs 0 (chars s))"
    "TAB \<notin> set s \<Longrightarrow> concat (wrap_lines s width) = s"
    "list_all (\<lambda>l. int (length (chars l)) \<le> width) (wrap_lines s width)"
proof -
  have w: "0 < nat width" using assms(1) by simp
  note wr = wrap_chars_lines [OF w, of s]
  have ls: "wrap_lines s width = (if wrap_chars (nat width) s = [] then [[]] else map concat (wrap_chars (nat width) s))"
    using assms(1) by (simp add: wrap_lines_def)
  have c: "concat (wrap_lines s width) = concat (expand_tabs 0 (chars s))"
    unfolding ls wr(1) [symmetric] by (simp add: concat_map_concat)
  moreover have "concat (expand_tabs 0 (chars s)) = s" if "TAB \<notin> set s"
  proof -
    have "[TAB] \<notin> set (chars s)" using that concat_chars [of s] by (metis UN_I list.set_intros(1) set_concat)
    then show ?thesis by (simp add: expand_tabs_id)
  qed
  moreover have "int (length (chars (concat l))) \<le> width" if "l \<in> set (wrap_chars (nat width) s)" for l
    using wr(2) wrap_chars_whole [OF w assms(2) that] that assms(1) by (auto simp: list_all_iff)
  then have "list_all (\<lambda>l. int (length (chars l)) \<le> width) (wrap_lines s width)"
    unfolding ls using assms(1) by (auto simp: list_all_iff)
  ultimately show "concat (wrap_lines s width) = concat (expand_tabs 0 (chars s))"
    "TAB \<notin> set s \<Longrightarrow> concat (wrap_lines s width) = s"
    "list_all (\<lambda>l. int (length (chars l)) \<le> width) (wrap_lines s width)" by simp_all
qed

text \<open>
  C23: Wrapping shows everything. For a text without tabs the lines of \<open>wrap_lines\<close>, joined,
  are the text, whatever the width above 1; with tabs they are the text with its tabs
  expanded. No line has more characters than the width, and there is always a line.
\<close>

theorem wrap_lossless:
  assumes "1 < width" and "list_all whole_char (chars s)"
  shows "concat (wrap_lines s width) = concat (expand_tabs 0 (chars s))
    \<and> (TAB \<notin> set s \<longrightarrow> concat (wrap_lines s width) = s)
    \<and> list_all (\<lambda>l. int (length (chars l)) \<le> width) (wrap_lines s width)
    \<and> wrap_lines s width \<noteq> []"
  using wrap_lines_whole [OF assms] assms(1) by (simp add: wrap_lines_def Let_def)

theorem wrap_lossless_witness:
  "concat (wrap_lines ''awk-command operator surface'' 8) = ''awk-command operator surface''
    \<and> list_all (\<lambda>l. int (length (chars l)) \<le> 8) (wrap_lines ''awk-command operator surface'' 8)
    \<and> wrap_lines ''awk-command operator surface'' 8 = [''awk-comm'', ''and '', ''operator'', '' surface'']"
proof -
  have "list_all whole_char (chars ''awk-command operator surface'')" by code_simp
  moreover have "wrap_lines ''awk-command operator surface'' 8 = [''awk-comm'', ''and '', ''operator'', '' surface'']"
    by code_simp
  ultimately show ?thesis using wrap_lossless [of 8 "''awk-command operator surface''"] by simp
qed

end
