(* ===== verification/Dash_Draw.thy ===== *)
theory Dash_Draw
  imports Hawk_Dash Text_Wrap
begin

text \<open>
  What the Python dashboard draws (\<open>draw_all\<close> of \<open>hawk_tui.py\<close>): the calls on curses
  windows, with the position on the screen, the characters and the attributes of every text.
  How curses puts them on the terminal is not part of the model.
\<close>

section \<open>Windows\<close>

datatype attr = A_BOLD | A_DIM | A_REVERSE | Color nat

datatype draw_op = Erase pane | Box pane | Put int int "string list" "attr list" | Refresh

abbreviation CP_ORANGE :: attr where "CP_ORANGE \<equiv> Color 2"
abbreviation CP_BANNER :: attr where "CP_BANNER \<equiv> Color 3"
abbreviation CP_DIM :: attr where "CP_DIM \<equiv> Color 4"
abbreviation CP_GOOD :: attr where "CP_GOOD \<equiv> Color 5"
abbreviation CP_WARN :: attr where "CP_WARN \<equiv> Color 6"
abbreviation CP_MUTED :: attr where "CP_MUTED \<equiv> Color 7"

text \<open>A window inside another, with its position on the screen.\<close>

definition derwin :: "pane \<Rightarrow> pane \<Rightarrow> pane" where
  "derwin outer p = p\<lparr>pn_y := pn_y outer + pn_y p, pn_x := pn_x outer + pn_x p\<rparr>"

definition add_text :: "pane \<Rightarrow> int \<Rightarrow> int \<Rightarrow> string \<Rightarrow> attr list \<Rightarrow> draw_op list" where
  "add_text win y x s attrs =
     (case safe_add (pn_h win) (pn_w win) y x (int (length (chars s))) of
        None \<Rightarrow> []
      | Some (y', x', n) \<Rightarrow> [Put (pn_y win + y') (pn_x win + x') (take (nat n) (chars s)) attrs])"

text \<open>Texts on rows that follow each other: \<open>for i, line in enumerate(ls)\<close>.\<close>

fun add_rows :: "pane \<Rightarrow> int \<Rightarrow> int \<Rightarrow> (string \<times> attr list) list \<Rightarrow> draw_op list" where
  "add_rows win y x [] = []"
| "add_rows win y x ((s, attrs) # ls) = add_text win y x s attrs @ add_rows win (y + 1) x ls"

definition plain :: "string list \<Rightarrow> (string \<times> attr list) list" where
  "plain ls = map (\<lambda>s. (s, [])) ls"

definition add_wrapped :: "pane \<Rightarrow> int \<Rightarrow> int \<Rightarrow> string \<Rightarrow> int \<Rightarrow> attr list \<Rightarrow> nat \<Rightarrow> draw_op list" where
  "add_wrapped win y x s width attrs max_lines =
     add_rows win y x (map (\<lambda>l. (l, attrs)) (take max_lines (wrap_lines s width)))"

text \<open>\<open>s.ljust(n)\<close>, also the format \<open>:<n\<close>, and \<open>c * n\<close>.\<close>

definition ljust :: "int \<Rightarrow> string \<Rightarrow> string" where
  "ljust n s = s @ replicate (nat n - length (chars s)) CHR '' ''"

definition times :: "int \<Rightarrow> string \<Rightarrow> string" where
  "times n c = concat (replicate (nat n) c)"

section \<open>The panes\<close>

text \<open>Characters outside ASCII.\<close>

abbreviation u_block :: string where "u_block \<equiv> [CHR 0xE2, CHR 0x96, CHR 0x88]"
abbreviation u_dash :: string where "u_dash \<equiv> [CHR 0xE2, CHR 0x94, CHR 0x80]"
abbreviation u_bar :: string where "u_bar \<equiv> [CHR 0xE2, CHR 0x94, CHR 0x82]"

definition dash_header :: string where
  "dash_header = [CHR 0xE2, CHR 0x96, CHR 0x9B, CHR 0xE2, CHR 0x96, CHR 0x9E] @ ''//''"

definition pane_title :: "pane \<Rightarrow> string \<Rightarrow> bool \<Rightarrow> draw_op list" where
  "pane_title win title accent =
     [Erase win, Box win] @
     add_text win 0 2 ('' '' @ dash_header @ '' '' @ title @ '' '') (A_BOLD # (if accent then [CP_ORANGE] else []))"

definition draw_banner :: "pane \<Rightarrow> string \<Rightarrow> string \<Rightarrow> draw_op list" where
  "draw_banner win frame now =
     (let s = '' Hawk-tui ['' @ frame @ ''] '' @ now @ '' '';
          fill = times (max 0 (pn_w win - int (length (chars s)) - 1)) u_block
      in add_text win 0 0 (ljust (pn_w win) []) [CP_BANNER] @ add_text win 0 1 (s @ fill) [A_BOLD, CP_BANNER])"

definition nav_cards :: "(string \<times> string \<times> string list) list" where
  "nav_cards =
     [([CHR 0xF0, CHR 0x9F, CHR 0x9B, CHR 0xB0], ''OVERVIEW'', [''runtime snapshot'', ''buffer growth and ingest'']),
      ([CHR 0xF0, CHR 0x9F, CHR 0xA9, CHR 0xBA], ''GRPC'', [''serving vs non-serving'', ''latency per endpoint'']),
      ([CHR 0xF0, CHR 0x9F, CHR 0x8C, CHR 0x8A], ''STREAMS'', [''lag by stream'', ''moving event activity'']),
      ([CHR 0xF0, CHR 0x9F, CHR 0xA7, CHR 0xB0], ''COMMANDS'', [''awk command palette'', ''run selected command''])]"

text \<open>The lines under the selected card, and the row after them.\<close>

fun nav_subs :: "pane \<Rightarrow> int \<Rightarrow> string list \<Rightarrow> draw_op list \<times> int" where
  "nav_subs win row [] = ([], row)"
| "nav_subs win row (s # ss) =
     (if pn_h win - 10 \<le> row then ([], row)
      else let (ops, row') = nav_subs win (row + 1) ss
           in (add_wrapped win row 4 ([CHR 0xE2, CHR 0x80, CHR 0xA2] @ '' '' @ s) (max 6 (pn_w win - 8)) [CP_MUTED] 1 @ ops, row'))"

definition nav_card :: "pane \<Rightarrow> int \<Rightarrow> int \<Rightarrow> bool \<Rightarrow> string \<Rightarrow> string \<Rightarrow> draw_op list" where
  "nav_card win row i is_selected emoji label =
     (let frame_w = max 8 (max 10 (pn_w win - 4) - 2);
          title_attr = [A_BOLD, if is_selected then CP_ORANGE else CP_MUTED];
          frame_attr = [if is_selected then CP_ORANGE else CP_DIM];
          marker = (if is_selected then [CHR 0xE2, CHR 0x96, CHR 0xBE] else [CHR 0xE2, CHR 0x96, CHR 0xB8]);
          title = '' '' @ i64_to_string (i + 1) @ '' '' @ dash_header @ '' '' @ emoji @ '' '' @ label @ '' '' @ marker @ '' ''
      in add_text win row 2 ([CHR 0xE2, CHR 0x94, CHR 0x8C] @ times frame_w u_dash @ [CHR 0xE2, CHR 0x94, CHR 0x90]) frame_attr
         @ add_text win (row + 1) 2 (u_bar @ concat (take (nat frame_w) (chars (ljust frame_w title))) @ u_bar) title_attr
         @ add_text win (row + 2) 2 ([CHR 0xE2, CHR 0x94, CHR 0x94] @ times frame_w u_dash @ [CHR 0xE2, CHR 0x94, CHR 0x98]) frame_attr)"

text \<open>The loop over the cards, which stops when there is no room above the controls.\<close>

fun nav_loop :: "pane \<Rightarrow> int \<Rightarrow> int \<Rightarrow> int \<Rightarrow> (string \<times> string \<times> string list) list \<Rightarrow> draw_op list \<times> int" where
  "nav_loop win selected i row [] = ([], row)"
| "nav_loop win selected i row ((emoji, label, subs) # cards) =
     (if pn_h win - 10 \<le> row + 3 then ([], row)
      else
        let is_selected = (i = selected);
            card = nav_card win row i is_selected emoji label;
            (lines, row) = (if is_selected \<and> row + 3 + 2 < pn_h win - 10 then nav_subs win (row + 3) subs else ([], row + 3));
            (ops, row) = nav_loop win selected (i + 1) (row + 1) cards
        in (card @ lines @ ops, row))"

definition nav_keys :: "string list" where
  "nav_keys = [''a/z/e daemon'', ''h/u health status'', ''[ ] choose command'', ''enter run command'', ''m add note'', ''r refresh   q quit'']"

definition draw_left_nav :: "pane \<Rightarrow> int \<Rightarrow> string \<Rightarrow> draw_op list" where
  "draw_left_nav win selected flash =
     (let h = pn_h win; w = pn_w win;
          (cards, row) = nav_loop win selected 0 5 nav_cards;
          k = max row (h - 9)
      in pane_title win ''NAV'' True
         @ add_text win 1 2 (times 28 u_block) [CP_ORANGE]
         @ add_text win 2 2 (dash_header @ '' Hawk-tui'') [A_BOLD, CP_ORANGE]
         @ add_wrapped win 3 2 ''awk-command operator surface'' (max 8 (w - 4)) [CP_MUTED] 2
         @ cards
         @ add_text win k 2 ''Controls'' [A_BOLD, CP_ORANGE]
         @ add_rows win (k + 1) 2 (map (\<lambda>s. (''- '' @ s, [A_DIM])) (take (nat (h - 2 - (k + 1))) nav_keys))
         @ (if flash \<noteq> [] then add_wrapped win (h - 2) 2 flash (max 8 (w - 4)) [A_BOLD, CP_ORANGE] 1 else []))"

definition draw_main_overview :: "pane \<Rightarrow> pane \<Rightarrow> hawk_config \<Rightarrow> state_cache \<Rightarrow> draw_op list" where
  "draw_main_overview upper lower cfg c =
     pane_title upper ''MAIN TOP :: OVERVIEW'' True @ pane_title lower ''MAIN BOTTOM :: RATE WINDOW'' True
     @ add_rows upper 1 2 (plain
         [''log file        : '' @ cf_log_file cfg,
          ''stream file     : '' @ cf_stream_file cfg,
          ''grpc targets    : '' @ cf_grpc_targets cfg,
          ''grpc checks     : ok='' @ i64_to_string (sc_grpc_ok c) @ '' bad='' @ i64_to_string (sc_grpc_bad c) @ '' last='' @ sc_grpc_last c,
          ''log bytes       : '' @ i64_to_string (sc_log_size c),
          ''log growth      : +'' @ i64_to_string (sc_log_delta c) @ '' bytes'',
          ''command poll    : '' @ sc_command_last c])
     @ add_rows lower 1 2 (plain (take 10 (sc_stream_rows c)))"

definition grpc_line :: "grpc_row \<Rightarrow> string" where
  "grpc_line r = ljust 32 (gr_endpoint r) @ '' '' @ ljust 12 (gr_status r) @ '' '' @ ljust 8 (gr_latency r) @ '' '' @ gr_source r"

definition draw_main_grpc :: "pane \<Rightarrow> pane \<Rightarrow> state_cache \<Rightarrow> draw_op list" where
  "draw_main_grpc upper lower c =
     pane_title upper ''MAIN TOP :: GRPC HEALTH'' True @ pane_title lower ''MAIN BOTTOM :: ENDPOINT TABLE'' True
     @ add_text upper 1 2 (''last poll: '' @ sc_grpc_last c) []
     @ add_text upper 2 2 (''serving: '' @ i64_to_string (sc_grpc_ok c)) [A_BOLD, CP_GOOD]
     @ add_text upper 3 2 (''non-serving: '' @ i64_to_string (sc_grpc_bad c)) [A_BOLD, CP_WARN]
     @ add_rows lower 1 2 (map (\<lambda>r. (grpc_line r, [if gr_status r = ''SERVING'' then CP_GOOD else CP_WARN])) (take 16 (sc_grpc_rows c)))"

definition draw_main_streams :: "pane \<Rightarrow> pane \<Rightarrow> state_cache \<Rightarrow> draw_op list" where
  "draw_main_streams upper lower c =
     pane_title upper ''MAIN TOP :: STREAM LAG'' True @ pane_title lower ''MAIN BOTTOM :: STREAM SUMMARY'' True
     @ add_text upper 1 2 (''last poll: '' @ sc_stream_last c) []
     @ add_rows upper 2 2 (plain (take (nat (max 1 (pn_h upper - 3))) (sc_stream_rows c)))
     @ add_rows lower 1 2 (plain (last_n 12 (sc_log_tail c)))"

definition draw_main_commands :: "pane \<Rightarrow> pane \<Rightarrow> state_cache \<Rightarrow> draw_op list" where
  "draw_main_commands upper lower c =
     pane_title upper ''MAIN TOP :: COMMAND LIBRARY'' True @ pane_title lower ''MAIN BOTTOM :: SELECTED OUTPUT'' True
     @ (if sc_command_catalog c = [] then add_text upper 1 2 ''No command catalog loaded.'' []
        else
          let cmds = take 12 (sc_command_catalog c) in
          add_rows upper 1 2 (map (\<lambda>(i, r). (ljust 16 (cr_id r) @ '' '' @ cr_title r,
              if int i = sc_selected_command c then [A_BOLD, A_REVERSE, CP_ORANGE] else [])) (enumerate 0 cmds))
          @ add_text upper (1 + int (length cmds) + 1) 2 (''last run: '' @ sc_command_last c) []
          @ add_rows lower 1 2 (plain (take (nat (max 1 (pn_h lower - 2))) (sc_command_output c))))"

definition draw_main :: "(string \<Rightarrow> string) \<Rightarrow> pane \<Rightarrow> int \<Rightarrow> hawk_config \<Rightarrow> state_cache \<Rightarrow> py_error + draw_op list" where
  "draw_main up win selected cfg c =
     and_then (py_nth nav_items selected) (\<lambda>item.
       let upper = derwin win (halves 3 win ! 0); lower = derwin win (halves 3 win ! 1)
       in Ok (pane_title win (''MAIN :: '' @ up item) True @
              (if selected = 0 then draw_main_overview upper lower cfg c
               else if selected = 1 then draw_main_grpc upper lower c
               else if selected = 2 then draw_main_streams upper lower c
               else draw_main_commands upper lower c)))"

definition draw_ops :: "pane \<Rightarrow> state_cache \<Rightarrow> string \<Rightarrow> draw_op list" where
  "draw_ops win c frame =
     (let upper = halves 5 win ! 0; d = derwin win upper; l = derwin win (halves 5 win ! 1); top_h = pn_h upper
      in pane_title win ''OPS :: DETAIL + LIVE LOG'' True
         @ [Erase d, Erase l]
         @ add_text win (1 + top_h) 1 (times (max 0 (pn_w win - 2)) [CHR 0xC2, CHR 0xB7]) [CP_DIM]
         @ add_text d 0 0 ''Control plane'' [A_BOLD, CP_ORANGE]
         @ add_rows d 1 0 (plain (last_n (nat (max 1 (top_h - 2))) (sc_control_tail c)))
         @ add_text l 0 0 (''Run log ['' @ frame @ '']'') [A_BOLD, CP_ORANGE]
         @ add_rows l 1 0 (map (\<lambda>s. (s, [A_DIM])) (last_n (nat (max 1 (pn_h l - 2))) (sc_log_tail c))))"

text \<open>The loop over the lines of the notes, which tests for the last row after each line.\<close>

fun chat_loop :: "pane \<Rightarrow> int \<Rightarrow> string list \<Rightarrow> draw_op list" where
  "chat_loop win row [] = []"
| "chat_loop win row (l # ls) =
     add_text win row 2 l [] @ (if pn_h win - 1 \<le> row + 1 then [] else chat_loop win (row + 1) ls)"

definition chat_wrapped :: "pane \<Rightarrow> state_cache \<Rightarrow> string list" where
  "chat_wrapped win c = concat (map (\<lambda>raw. wrap_lines raw (max 8 (pn_w win - 4))) (last_n 80 (sc_chat_tail c)))"

definition draw_chat :: "pane \<Rightarrow> state_cache \<Rightarrow> draw_op list" where
  "draw_chat win c =
     (let wrapped = chat_wrapped win c
      in pane_title win ''CHAT :: DETAILS'' True
         @ add_text win 1 2 ''Agent notes'' [A_BOLD, CP_ORANGE]
         @ add_text win 2 2 (''log bytes='' @ i64_to_string (sc_log_size c) @ '' delta='' @ i64_to_string (sc_log_delta c)) [CP_MUTED]
         @ (if wrapped = [] then add_text win 4 2 ''No notes yet. Press m to append.'' [CP_MUTED]
            else chat_loop win 4 (last_n (nat (max 1 (pn_h win - 5))) wrapped)))"

definition screen :: "int \<Rightarrow> int \<Rightarrow> pane" where
  "screen h w = \<lparr>pn_h = h, pn_w = w, pn_y = 0, pn_x = 0\<rparr>"

definition draw_all ::
  "(string \<Rightarrow> string) \<Rightarrow> int \<Rightarrow> int \<Rightarrow> string \<Rightarrow> int \<Rightarrow> hawk_config \<Rightarrow> state_cache \<Rightarrow> string \<Rightarrow> string \<Rightarrow> py_error + draw_op list" where
  "draw_all up h w now selected cfg c flash frame =
     (let stdscr = screen h w in
      case layout h w of
        Some [nav, main, ops, chat] \<Rightarrow>
          and_then (draw_main up main selected cfg c) (\<lambda>main_ops.
            Ok (Erase stdscr # draw_banner stdscr frame now @ draw_left_nav nav selected flash @ main_ops
                @ draw_ops ops c frame @ draw_chat chat c @ [Refresh]))
      | _ \<Rightarrow>
          Ok (Erase stdscr # add_text stdscr 1 2 ''Terminal too small for Hawk-tui.'' [A_BOLD]
              @ add_text stdscr 2 2 (''Current '' @ i64_to_string w @ ''x'' @ i64_to_string h @ ''; need at least 150x28'') []
              @ add_text stdscr 4 2 ''Resize then press r. q to quit.'' [] @ [Refresh]))"

section \<open>Everything is drawn on the screen\<close>

definition fits :: "int \<Rightarrow> int \<Rightarrow> pane \<Rightarrow> bool" where
  "fits h w p \<longleftrightarrow> 0 \<le> pn_y p \<and> pn_y p + pn_h p \<le> h \<and> 0 \<le> pn_x p \<and> pn_x p + pn_w p \<le> w"

fun within :: "int \<Rightarrow> int \<Rightarrow> draw_op \<Rightarrow> bool" where
  "within h w (Erase p) = fits h w p"
| "within h w (Box p) = fits h w p"
| "within h w (Put y x cs attrs) = (0 \<le> y \<and> y < h \<and> 0 \<le> x \<and> x + int (length cs) < w)"
| "within h w Refresh = True"

named_theorems drawn

lemma add_text_within [drawn]:
  assumes "fits h w win" and "0 \<le> x"
  shows "list_all (within h w) (add_text win y x s attrs)"
proof (cases "safe_add (pn_h win) (pn_w win) y x (int (length (chars s)))")
  case (Some t)
  obtain y' x' n where t: "t = (y', x', n)" by (cases t)
  with Some have "y' = y" "x' = x" "0 \<le> y" "y < pn_h win" "x + n < pn_w win"
    using safe_add_clips by blast+
  moreover have "0 \<le> n"
    using Some t by (auto simp: safe_add_def Let_def split: if_splits)
  ultimately show ?thesis using assms Some t by (auto simp: add_text_def fits_def)
qed (simp add: add_text_def)

lemma add_rows_within [drawn]: "fits h w win \<Longrightarrow> 0 \<le> x \<Longrightarrow> list_all (within h w) (add_rows win y x ls)"
  by (induction win y x ls rule: add_rows.induct) (simp_all add: add_text_within)

lemma add_wrapped_within [drawn]: "fits h w win \<Longrightarrow> 0 \<le> x \<Longrightarrow> list_all (within h w) (add_wrapped win y x s n attrs k)"
  by (simp add: add_wrapped_def add_rows_within)

lemma pane_title_within [drawn]: "fits h w win \<Longrightarrow> list_all (within h w) (pane_title win title accent)"
  by (simp add: pane_title_def add_text_within)

lemma nav_subs_within: "fits h w win \<Longrightarrow> nav_subs win row ss = (ops, row') \<Longrightarrow> list_all (within h w) ops"
proof (induction ss arbitrary: row ops row')
  case (Cons s ss)
  obtain o' r' where n: "nav_subs win (row + 1) ss = (o', r')" by force
  from Cons.prems n show ?case
    using Cons.IH [OF Cons.prems(1) n] by (auto simp: add_wrapped_within split: if_splits)
qed simp

lemma nav_card_within [drawn]: "fits h w win \<Longrightarrow> list_all (within h w) (nav_card win row i sel emoji label)"
  by (simp add: nav_card_def Let_def add_text_within)

lemma nav_loop_within:
  "fits h w win \<Longrightarrow> nav_loop win selected i row cards = (ops, row') \<Longrightarrow> list_all (within h w) ops"
proof (induction cards arbitrary: i row ops row')
  case (Cons card cards)
  obtain emoji label subs where card: "card = (emoji, label, subs)" by (cases card)
  obtain lines r where l: "(if i = selected \<and> row + 3 + 2 < pn_h win - 10 then nav_subs win (row + 3) subs else ([], row + 3)) = (lines, r)"
    by force
  then have "list_all (within h w) lines" using nav_subs_within [OF Cons.prems(1)] by (auto split: if_splits)
  moreover obtain o' r' where n: "nav_loop win selected (i + 1) (r + 1) cards = (o', r')" by force
  moreover have "list_all (within h w) o'" by (rule Cons.IH [OF Cons.prems(1) n])
  moreover have "ops = [] \<or> ops = nav_card win row i (i = selected) emoji label @ lines @ o'"
    using Cons.prems(2) unfolding card nav_loop.simps Let_def l prod.case n by (auto split: if_splits)
  ultimately show ?case using nav_card_within [OF Cons.prems(1)] by auto
qed simp

lemma draw_left_nav_within [drawn]: "fits h w win \<Longrightarrow> list_all (within h w) (draw_left_nav win selected flash)"
  using nav_loop_within [of h w win selected 0 5 nav_cards]
  by (cases "nav_loop win selected 0 5 nav_cards") (simp add: draw_left_nav_def Let_def drawn)

lemma halves_fit:
  assumes "fits h w win" and "2 * least + 3 \<le> pn_h win" and "0 \<le> least"
  shows "fits h w (derwin win (halves least win ! 0))" "fits h w (derwin win (halves least win ! 1))"
proof -
  have "(pn_h win - 3) div 2 * 2 \<le> pn_h win - 3" "pn_h win - 4 \<le> (pn_h win - 3) div 2 * 2" by presburger+
  with assms show "fits h w (derwin win (halves least win ! 0))" "fits h w (derwin win (halves least win ! 1))"
    by (auto simp: fits_def derwin_def halves_def Let_def max_def)
qed

lemma draw_main_within:
  assumes "fits h w win" and "9 \<le> pn_h win" and "draw_main up win selected cfg c = Ok ops"
  shows "list_all (within h w) ops"
proof -
  note f = halves_fit [OF assms(1), of 3]
  from assms(3) obtain item where "py_nth nav_items selected = Ok item"
    unfolding draw_main_def by (cases "py_nth nav_items selected") simp_all
  with assms show ?thesis
    using f by (auto simp: draw_main_def drawn draw_main_overview_def draw_main_grpc_def draw_main_streams_def
      draw_main_commands_def Let_def split: if_splits)
qed

lemma draw_ops_within: "fits h w win \<Longrightarrow> 13 \<le> pn_h win \<Longrightarrow> list_all (within h w) (draw_ops win c frame)"
  using halves_fit [of h w win 5] by (simp add: draw_ops_def Let_def drawn)

lemma chat_loop_within: "fits h w win \<Longrightarrow> list_all (within h w) (chat_loop win row ls)"
  by (induction ls arbitrary: row) (simp_all add: add_text_within)

lemma draw_chat_within: "fits h w win \<Longrightarrow> list_all (within h w) (draw_chat win c)"
  by (simp add: draw_chat_def Let_def drawn chat_loop_within)

lemma draw_banner_within: "fits h w win \<Longrightarrow> list_all (within h w) (draw_banner win frame now)"
  by (simp add: draw_banner_def Let_def drawn)

lemma screen_fits: "fits h w (screen h w)"
  by (simp add: screen_def fits_def)

lemma layout_panes:
  assumes "28 \<le> h" and "150 \<le> w"
  obtains nav main ops chat where "layout h w = Some [nav, main, ops, chat]" "list_all (fits h w) [nav, main, ops, chat]"
    "list_all (\<lambda>p. pn_h p = h - 1) [nav, main, ops, chat]" "pn_w chat = 30"
proof -
  have "0 \<le> (w - 63) * 2 div 3" "(w - 63) * 2 div 3 \<le> w - 63" using assms by presburger+
  with assms show thesis
    by (intro that [OF layout_large [OF assms, unfolded Let_def]]) (simp_all add: fits_def)
qed


section \<open>The notes\<close>

lemma add_text_whole:
  assumes "0 \<le> y" "y < pn_h win" and "0 < pn_w win - x - 1" "int (length (chars s)) \<le> pn_w win - x - 1"
  shows "add_text win y x s attrs = [Put (pn_y win + y) (pn_x win + x) (chars s) attrs]"
  using assms by (simp add: add_text_def safe_add_def Let_def)

lemma chat_loop_whole:
  assumes "0 \<le> row" and "row + int (length ls) \<le> pn_h win - 1" and "3 < pn_w win"
    and "list_all (\<lambda>l. int (length (chars l)) \<le> pn_w win - 3) ls"
  shows "chat_loop win row ls =
    map (\<lambda>(i, l). Put (pn_y win + row + int i) (pn_x win + 2) (chars l) []) (enumerate 0 ls)"
  using assms
proof (induction ls arbitrary: row)
  case (Cons l ls)
  have "add_text win row 2 l [] = [Put (pn_y win + row) (pn_x win + 2) (chars l) []]"
    using Cons.prems by (intro add_text_whole) simp_all
  moreover have "(if pn_h win - 1 \<le> row + 1 then [] else chat_loop win (row + 1) ls) =
      map (\<lambda>(i, l). Put (pn_y win + (row + 1) + int i) (pn_x win + 2) (chars l) []) (enumerate 0 ls)"
  proof (cases "ls = []")
    case False
    then have "1 \<le> int (length ls)" by (cases ls) simp_all
    with Cons.prems(2) have "\<not> pn_h win - 1 \<le> row + 1" by simp
    with Cons show ?thesis by simp
  qed simp
  ultimately show ?case
    by (simp add: enumerate_Suc_eq comp_def case_prod_beta add.assoc)
qed simp

lemma concat_wraps:
  assumes "1 < width" and "list_all (\<lambda>s. list_all whole_char (chars s) \<and> TAB \<notin> set s) ss"
  shows "concat (concat (map (\<lambda>s. wrap_lines s width) ss)) = concat ss"
  using assms(2) by (induction ss) (simp_all add: wrap_lines_whole(2) [OF assms(1)])

lemma wrap_lines_fit:
  assumes "1 < width" and "list_all (\<lambda>s. list_all whole_char (chars s)) ss"
  shows "list_all (\<lambda>l. int (length (chars l)) \<le> width) (concat (map (\<lambda>s. wrap_lines s width) ss))"
  using assms(2) wrap_lines_whole(3) [OF assms(1)] by (induction ss) simp_all

lemma last_n_Nil: "0 < n \<Longrightarrow> last_n n xs = [] \<longleftrightarrow> xs = []"
  by (cases xs) (auto simp: last_n_def)

lemma last_n_set: "list_all P xs \<Longrightarrow> list_all P (last_n n xs)"
  by (auto simp: last_n_def list_all_iff dest: in_set_dropD)

text \<open>
  C25: The notes are shown to the end. In a pane as the dashboard makes it, the pane of the
  notes ends with the newest wrapped lines, as many as there are rows for them, one below
  the other and none of them cut; and, where the notes have no tabs, the wrapped lines joined
  are the last 80 notes.
\<close>

theorem chat_shows_newest:
  assumes "12 \<le> pn_w win" and "6 \<le> pn_h win" and "sc_chat_tail c \<noteq> []"
    and "list_all (\<lambda>s. list_all whole_char (chars s)) (sc_chat_tail c)"
  shows "suffix (map (\<lambda>(i, l). Put (pn_y win + 4 + int i) (pn_x win + 2) (chars l) [])
      (enumerate 0 (last_n (nat (pn_h win - 5)) (chat_wrapped win c)))) (draw_chat win c)
    \<and> (list_all (\<lambda>s. TAB \<notin> set s) (sc_chat_tail c) \<longrightarrow> concat (chat_wrapped win c) = concat (last_n 80 (sc_chat_tail c)))"
proof -
  define width where "width = max 8 (pn_w win - 4)"
  have w: "1 < width" "width \<le> pn_w win - 3" using assms(1) by (simp_all add: width_def)
  define ns where "ns = last_n 80 (sc_chat_tail c)"
  have wr: "chat_wrapped win c = concat (map (\<lambda>s. wrap_lines s width) ns)"
    by (simp add: chat_wrapped_def width_def ns_def)
  have n: "list_all (\<lambda>s. list_all whole_char (chars s)) ns" unfolding ns_def by (rule last_n_set [OF assms(4)])
  have "ns \<noteq> []" using assms(3) by (simp add: ns_def last_n_Nil)
  moreover have "wrap_lines s width \<noteq> []" for s using w(1) by (simp add: wrap_lines_def Let_def)
  ultimately have ne: "chat_wrapped win c \<noteq> []" unfolding wr by (cases ns) simp_all
  define ls where "ls = last_n (nat (pn_h win - 5)) (chat_wrapped win c)"
  have "list_all (\<lambda>l. int (length (chars l)) \<le> pn_w win - 3) (chat_wrapped win c)"
    unfolding wr by (rule list.pred_mono_strong [OF wrap_lines_fit [OF w(1) n]]) (use w(2) in simp)
  then have "list_all (\<lambda>l. int (length (chars l)) \<le> pn_w win - 3) ls" unfolding ls_def by (rule last_n_set)
  then have "chat_loop win 4 ls = map (\<lambda>(i, l). Put (pn_y win + 4 + int i) (pn_x win + 2) (chars l) []) (enumerate 0 ls)"
    using assms(1,2) by (intro chat_loop_whole) (simp_all add: ls_def)
  then have "suffix (map (\<lambda>(i, l). Put (pn_y win + 4 + int i) (pn_x win + 2) (chars l) []) (enumerate 0 ls)) (draw_chat win c)"
    using ne assms(2) by (simp add: draw_chat_def Let_def ls_def max_def suffix_def)
  moreover have "concat (chat_wrapped win c) = concat ns" if "list_all (\<lambda>s. TAB \<notin> set s) (sc_chat_tail c)"
    unfolding wr using n last_n_set [OF that, of 80]
    by (intro concat_wraps [OF w(1)]) (simp add: ns_def list_all_iff)
  ultimately show ?thesis unfolding ls_def ns_def by blast
qed

text \<open>A note that takes two lines and a short one, in a pane with one row for notes.\<close>

definition chat_cache :: state_cache where
  "chat_cache = cache_init\<lparr>sc_chat_tail := [''deploy went fine today'', ''ok'']\<rparr>"

definition chat_pane :: pane where
  "chat_pane = \<lparr>pn_h = 7, pn_w = 20, pn_y = 1, pn_x = 40\<rparr>"

theorem chat_shows_newest_witness:
  "suffix [Put 5 42 (chars '' today'') [], Put 6 42 (chars ''ok'') []] (draw_chat chat_pane chat_cache)
    \<and> concat (chat_wrapped chat_pane chat_cache) = ''deploy went fine todayok''"
proof -
  have w: "chat_wrapped chat_pane chat_cache = [''deploy went fine'', '' today'', ''ok'']" by code_simp
  have t: "sc_chat_tail chat_cache = [''deploy went fine today'', ''ok'']" by (simp add: chat_cache_def)
  have c: "list_all (\<lambda>s. list_all whole_char (chars s)) [''deploy went fine today'', ''ok'']" by code_simp
  have p: "pn_w chat_pane = 20" "pn_h chat_pane = 7" "pn_y chat_pane = 1" "pn_x chat_pane = 40"
    by (simp_all add: chat_pane_def)
  show ?thesis
    using chat_shows_newest [of chat_pane chat_cache, unfolded w t p] c
    by (simp add: last_n_def w del: chars.simps)
qed

end
