(* ===== verification/Hawk_Io.thy ===== *)
theory Hawk_Io
  imports Hawkframe
begin

text \<open>
  The readers of the mirror (\<open>crates/hawk/src/io.rs\<close>). A reader thread takes the results
  of successive reads and sends one message per frame or error on a channel; what it sends is
  a list. The end of the list is the end of the input.
\<close>

datatype 't ingest_msg = Frame "'t hawk_frame" | ParseError parse_error | IoError string

text \<open>One result of \<open>read_line\<close> or one item of \<open>lines()\<close>.\<close>

datatype read_result = ReadOk string | ReadErr string

fun stdin_reader :: "'t time_api \<Rightarrow> bool \<Rightarrow> read_result list \<Rightarrow> 't ingest_msg list" where
  "stdin_reader T strict [] = []"
| "stdin_reader T strict (ReadOk line # rs) =
     (case parse_tsv_line T line of
        Inr (Some f) \<Rightarrow> Frame f # stdin_reader T strict rs
      | Inr None \<Rightarrow> stdin_reader T strict rs
      | Inl e \<Rightarrow> ParseError e # (if strict then [] else stdin_reader T strict rs))"
| "stdin_reader T strict (ReadErr e # rs) = [IoError e]"

fun unix_lines :: "'t time_api \<Rightarrow> bool \<Rightarrow> read_result list \<Rightarrow> 't ingest_msg list" where
  "unix_lines T strict [] = []"
| "unix_lines T strict (ReadOk line # rs) =
     (case parse_tsv_line T line of
        Inr (Some f) \<Rightarrow> Frame f # unix_lines T strict rs
      | Inr None \<Rightarrow> unix_lines T strict rs
      | Inl e \<Rightarrow> ParseError e # (if strict then [] else unix_lines T strict rs))"
| "unix_lines T strict (ReadErr e # rs) = [IoError e]"

text \<open>\<open>spawn_unix_reader\<close>: connecting may fail, otherwise the stream is read line by line.\<close>

definition unix_reader ::
  "'t time_api \<Rightarrow> string \<Rightarrow> bool \<Rightarrow> string + read_result list \<Rightarrow> 't ingest_msg list" where
  "unix_reader T path strict conn =
     (case conn of
        Inl e \<Rightarrow> [IoError (''connect '' @ path @ '' failed: '' @ e)]
      | Inr rs \<Rightarrow> unix_lines T strict rs)"

section \<open>The readers as event loops\<close>

fun line_msgs :: "'t time_api \<Rightarrow> string \<Rightarrow> 't ingest_msg list" where
  "line_msgs T line =
     (case parse_tsv_line T line of
        Inr (Some f) \<Rightarrow> [Frame f]
      | Inr None \<Rightarrow> []
      | Inl e \<Rightarrow> [ParseError e])"

declare line_msgs.simps [simp del]

fun read_msgs :: "'t time_api \<Rightarrow> read_result \<Rightarrow> 't ingest_msg list" where
  "read_msgs T (ReadOk line) = line_msgs T line"
| "read_msgs T (ReadErr e) = [IoError e]"

fun read_halts :: "'t time_api \<Rightarrow> bool \<Rightarrow> read_result \<Rightarrow> bool" where
  "read_halts T strict (ReadOk line) = (strict \<and> (\<exists>e. parse_tsv_line T line = Inl e))"
| "read_halts T strict (ReadErr e) = True"

interpretation sr: event_loop "read_msgs T" "read_halts T strict" "stdin_reader T strict"
  for T strict
proof
  fix e es
  show "stdin_reader T strict (e # es) =
    read_msgs T e @ (if read_halts T strict e then [] else stdin_reader T strict es)"
    by (cases e) (auto simp: line_msgs.simps split: sum.splits option.splits)
qed simp

interpretation ur: event_loop "read_msgs T" "read_halts T strict" "unix_lines T strict"
  for T strict
proof
  fix e es
  show "unix_lines T strict (e # es) =
    read_msgs T e @ (if read_halts T strict e then [] else unix_lines T strict es)"
    by (cases e) (auto simp: line_msgs.simps split: sum.splits option.splits)
qed simp

lemma unix_lines_eq_stdin_reader: "unix_lines T strict rs = stdin_reader T strict rs"
  by (simp add: sr.run_concat ur.run_concat)

fun is_error :: "'t ingest_msg \<Rightarrow> bool" where
  "is_error (Frame f) = False"
| "is_error (ParseError e) = True"
| "is_error (IoError e) = True"

lemma stdin_reader_lines:
  "stdin_reader T False (map ReadOk ls) = concat (map (line_msgs T) ls)"
  by (subst sr.run_all) (simp_all add: comp_def)

section \<open>Properties\<close>

text \<open>
  C30: without \<open>--strict\<close> a reader loses nothing: the messages are, in the order of the
  input, one frame or parse error for each line that is neither blank nor a comment, over
  stdin and over a connected socket alike.
\<close>

theorem reader_lossless:
  "stdin_reader T False (map ReadOk ls) = concat (map (line_msgs T) ls)
   \<and> unix_reader T path False (Ok (map ReadOk ls)) = stdin_reader T False (map ReadOk ls)
   \<and> length (stdin_reader T False (map ReadOk ls)) = length (filter (\<lambda>l. \<not> ignorable l) ls)"
proof -
  have one: "length (line_msgs T l) = (if ignorable l then 0 else 1)" for l
    by (auto simp: line_msgs.simps parse_tsv_line_cases map_sum_def split: sum.splits option.splits)
  have "length (concat (map (line_msgs T) ls)) = length (filter (\<lambda>l. \<not> ignorable l) ls)"
    by (induction ls) (auto simp: one)
  then show ?thesis
    by (simp add: stdin_reader_lines unix_reader_def unix_lines_eq_stdin_reader)
qed

text \<open>
  With \<open>--strict\<close> a reader sends what it would send without, cut after the first
  error message; and in both modes nothing follows a read error.
\<close>

theorem reader_strict_cut:
  "stdin_reader T True rs = until_stop is_error (stdin_reader T False rs)
   \<and> stdin_reader T strict (us @ ReadErr e # vs) = stdin_reader T strict (us @ [ReadErr e])"
proof -
  have "stdin_reader T True rs = until_stop is_error (stdin_reader T False rs)"
  proof (induction rs)
    case Nil
    then show ?case by simp
  next
    case (Cons r rs)
    then show ?case
      by (cases r) (auto split: sum.splits option.splits)
  qed
  moreover have "stdin_reader T strict (us @ ReadErr e # vs) = stdin_reader T strict (us @ [ReadErr e])"
    by (induction us) (auto simp: sr.run_Cons)
  ultimately show ?thesis by blast
qed

end
