(* ===== verification/Hawk_App.thy ===== *)
theory Hawk_App
  imports Hawk_Io "HOL-Library.Word" "HOL-Library.Product_Lexorder"
begin

text \<open>
  The state of the mirror (\<open>crates/hawk/src/app.rs\<close>): the event tail, the counters and
  the entity table keyed by \<open>scope:id\<close>; ingestion of messages; liveness by age with
  per-entity time-to-live overrides; the header counts; and the sorted entity list.
  Counters are 64-bit words and wrap as \<open>u64\<close> does in a release build. The clock is the
  argument \<open>now\<close> of every operation that reads it.
\<close>

type_synonym u64 = "64 word"

record 't entity_state =
  es_scope :: string
  es_id :: string
  es_last_level :: level
  es_last_msg :: string
  es_last_seen :: 't
  es_kind :: string
  es_kv :: kv_bag

record 't app =
  tail :: "string list"
  tail_size :: nat
  frames_seen :: u64
  parse_errors :: u64
  io_errors :: u64
  entities :: "(string, 't entity_state) btree_map"
  stale_s :: int
  dead_s :: int

datatype liveness = Active | Dream | Stale | Dead

section \<open>Construction and ingestion\<close>

definition app_new :: "nat \<Rightarrow> int \<Rightarrow> int \<Rightarrow> 't app" where
  "app_new n stale dead =
     \<lparr>tail = [], tail_size = n, frames_seen = 0, parse_errors = 0, io_errors = 0,
      entities = [], stale_s = stale, dead_s = dead\<rparr>"

text \<open>The loop of \<open>push_tail\<close>: drop from the back while the deque is too long.\<close>

function pop_excess :: "nat \<Rightarrow> string list \<Rightarrow> string list" where
  "pop_excess n t = (if n < length t then pop_excess n (butlast t) else t)"
  by pat_completeness auto
termination
  by (relation "measure (\<lambda>(n, t). length t)") auto

declare pop_excess.simps [simp del]

definition push_tail :: "string \<Rightarrow> 't app \<Rightarrow> 't app" where
  "push_tail line a = a\<lparr>tail := pop_excess (tail_size a) (line # tail a)\<rparr>"

definition entity_key :: "string \<Rightarrow> string \<Rightarrow> string" where
  "entity_key scope eid = scope @ '':'' @ eid"

definition ingest_frame :: "'t time_api \<Rightarrow> 't \<Rightarrow> 't hawk_frame \<Rightarrow> 't app \<Rightarrow> 't app" where
  "ingest_frame T now f a =
     (let a1 = a\<lparr>frames_seen := frames_seen a + 1\<rparr>;
          compact = to_compact_line T f;
          seen = (case hf_ts f of None \<Rightarrow> now | Some t \<Rightarrow> t);
          key = entity_key (hf_scope f) (hf_id f);
          st = \<lparr>es_scope = hf_scope f, es_id = hf_id f, es_last_level = hf_level f,
                es_last_msg = hf_msg f, es_last_seen = seen, es_kind = hf_kind f,
                es_kv = hf_kv f\<rparr>;
          a2 = a1\<lparr>entities := bm_insert key st (entities a1)\<rparr>
      in push_tail compact a2)"

fun ingest :: "'t time_api \<Rightarrow> 't \<Rightarrow> 't ingest_msg \<Rightarrow> 't app \<Rightarrow> 't app" where
  "ingest T now (Frame f) a = ingest_frame T now f a"
| "ingest T now (ParseError e) a = a\<lparr>parse_errors := parse_errors a + 1\<rparr>"
| "ingest T now (IoError e) a = a\<lparr>io_errors := io_errors a + 1\<rparr>"

section \<open>Liveness\<close>

definition compute_liveness_with_ttl :: "'t time_api \<Rightarrow> 't \<Rightarrow> 't \<Rightarrow> int \<Rightarrow> int \<Rightarrow> liveness" where
  "compute_liveness_with_ttl T last_seen now stale dead =
     (let age_s = whole_seconds T now last_seen in
      if dead \<le> age_s then Dead
      else if stale \<le> age_s then Stale
      else if age_s \<le> max (stale sdiv 2) 1 then Active
      else Dream)"

definition compute_liveness :: "'t time_api \<Rightarrow> 't app \<Rightarrow> 't \<Rightarrow> 't \<Rightarrow> liveness" where
  "compute_liveness T a last_seen now =
     compute_liveness_with_ttl T last_seen now (stale_s a) (dead_s a)"

definition parse_ttl_from_kv :: "kv_bag \<Rightarrow> string \<Rightarrow> int option" where
  "parse_ttl_from_kv kv key =
     Option.bind (bm_get kv key) (\<lambda>v. Option.bind (parse_i64 v) (\<lambda>n. if 0 < n then Some n else None))"

definition ttl_or :: "int option \<Rightarrow> int \<Rightarrow> int" where
  "ttl_or v d = (case v of None \<Rightarrow> d | Some n \<Rightarrow> n)"

definition compute_entity_liveness :: "'t time_api \<Rightarrow> 't app \<Rightarrow> 't entity_state \<Rightarrow> 't \<Rightarrow> liveness" where
  "compute_entity_liveness T a st now =
     compute_liveness_with_ttl T (es_last_seen st) now
       (ttl_or (parse_ttl_from_kv (es_kv st) ''ttl_stale_s'') (stale_s a))
       (ttl_or (parse_ttl_from_kv (es_kv st) ''ttl_dead_s'') (dead_s a))"

section \<open>Header counts\<close>

record counts =
  c_ok :: u64
  c_warn :: u64
  c_fail :: u64
  c_stale :: u64
  c_dead :: u64

definition count_entity :: "'t time_api \<Rightarrow> 't app \<Rightarrow> 't \<Rightarrow> 't entity_state \<Rightarrow> counts \<Rightarrow> counts" where
  "count_entity T a now st c =
     (case compute_entity_liveness T a st now of
        Stale \<Rightarrow> c\<lparr>c_stale := c_stale c + 1\<rparr>
      | Dead \<Rightarrow> c\<lparr>c_dead := c_dead c + 1\<rparr>
      | _ \<Rightarrow> (case es_last_level st of
                LFail \<Rightarrow> c\<lparr>c_fail := c_fail c + 1\<rparr>
              | LWarn \<Rightarrow> c\<lparr>c_warn := c_warn c + 1\<rparr>
              | LOk \<Rightarrow> c\<lparr>c_ok := c_ok c + 1\<rparr>
              | LInfo \<Rightarrow> c\<lparr>c_ok := c_ok c + 1\<rparr>
              | LUnknown \<Rightarrow> c\<lparr>c_ok := c_ok c + 1\<rparr>))"

definition counts_by_state ::
  "'t time_api \<Rightarrow> 't app \<Rightarrow> 't \<Rightarrow> u64 \<times> u64 \<times> u64 \<times> u64 \<times> u64 \<times> u64" where
  "counts_by_state T a now =
     (let c = fold (count_entity T a now) (bm_values (entities a))
                \<lparr>c_ok = 0, c_warn = 0, c_fail = 0, c_stale = 0, c_dead = 0\<rparr>;
          total = of_nat (length (entities a))
      in (total, c_ok c, c_warn c, c_fail c, c_stale c, c_dead c))"

section \<open>The sorted entity list\<close>

fun rank_live :: "liveness \<Rightarrow> nat" where
  "rank_live Dead = 0"
| "rank_live Stale = 1"
| "rank_live Active = 2"
| "rank_live Dream = 3"

definition entity_cmp ::
  "'t time_api \<Rightarrow> 't app \<Rightarrow> 't \<Rightarrow> 't entity_state \<Rightarrow> 't entity_state \<Rightarrow> ordering" where
  "entity_cmp T app now a b =
     (let ra = rank_live (compute_entity_liveness T app a now);
          rb = rank_live (compute_entity_liveness T app b now)
      in then_with (cmp ra rb)
           (then_with (cmp (level_rank (es_last_level a)) (level_rank (es_last_level b)))
             (then_with (cmp (unix_nanos T (es_last_seen b)) (unix_nanos T (es_last_seen a)))
               (cmp (es_id a) (es_id b)))))"

definition sorted_entities :: "'t time_api \<Rightarrow> 't app \<Rightarrow> 't \<Rightarrow> 't entity_state list" where
  "sorted_entities T a now = sort_by (entity_cmp T a now) (bm_values (entities a))"

section \<open>The tail\<close>

lemma pop_excess_take: "pop_excess n t = take n t"
proof (induction n t rule: pop_excess.induct)
  case (1 n t)
  show ?case
  proof (cases "n < length t")
    case True
    with 1 have "pop_excess n t = take n (butlast t)" by (subst pop_excess.simps) simp
    moreover from True have "n \<le> length t - 1" by simp
    ultimately show ?thesis by (simp add: butlast_conv_take min_absorb1)
  next
    case False
    then show ?thesis by (subst pop_excess.simps) simp
  qed
qed

lemma push_tail_take: "push_tail line a = a\<lparr>tail := take (tail_size a) (line # tail a)\<rparr>"
  by (simp add: push_tail_def pop_excess_take)

section \<open>Runs of messages\<close>

text \<open>The messages of a run, each with the clock reading at which it is ingested.\<close>

definition ingest_all :: "'t time_api \<Rightarrow> ('t \<times> 't ingest_msg) list \<Rightarrow> 't app \<Rightarrow> 't app" where
  "ingest_all T ms a = fold (\<lambda>(now, m). ingest T now m) ms a"

fun frame_of_msg :: "'t ingest_msg \<Rightarrow> 't hawk_frame option" where
  "frame_of_msg (Frame f) = Some f"
| "frame_of_msg _ = None"

definition timed_frames :: "('t \<times> 't ingest_msg) list \<Rightarrow> ('t \<times> 't hawk_frame) list" where
  "timed_frames ms = List.map_filter (\<lambda>(now, m). map_option (\<lambda>f. (now, f)) (frame_of_msg m)) ms"

lemma timed_frames_simps [simp]:
  "timed_frames [] = []"
  "timed_frames ((now, Frame f) # ms) = (now, f) # timed_frames ms"
  "timed_frames ((now, ParseError e) # ms) = timed_frames ms"
  "timed_frames ((now, IoError s) # ms) = timed_frames ms"
  by (simp_all add: timed_frames_def map_filter_def)

lemma timed_frames_append [simp]: "timed_frames (ms @ ns) = timed_frames ms @ timed_frames ns"
  by (simp add: timed_frames_def map_filter_def)

definition entity_of :: "'t \<times> 't hawk_frame \<Rightarrow> 't entity_state" where
  "entity_of nf =
     \<lparr>es_scope = hf_scope (snd nf), es_id = hf_id (snd nf), es_last_level = hf_level (snd nf),
      es_last_msg = hf_msg (snd nf), es_last_seen = stamp (snd nf) (fst nf),
      es_kind = hf_kind (snd nf), es_kv = hf_kv (snd nf)\<rparr>"

definition frame_key :: "'t hawk_frame \<Rightarrow> string" where
  "frame_key f = entity_key (hf_scope f) (hf_id f)"

lemma ingest_frame_eq:
  "ingest_frame T now f a =
     a\<lparr>frames_seen := frames_seen a + 1,
       entities := bm_insert (frame_key f) (entity_of (now, f)) (entities a),
       tail := take (tail_size a) (to_compact_line T f # tail a)\<rparr>"
  by (simp add: ingest_frame_def push_tail_take frame_key_def entity_of_def stamp_def Let_def)

lemma ingest_all_Nil [simp]: "ingest_all T [] a = a"
  by (simp add: ingest_all_def)

lemma ingest_all_snoc [simp]:
  "ingest_all T (ms @ [x]) a = ingest T (fst x) (snd x) (ingest_all T ms a)"
  by (simp add: ingest_all_def split: prod.splits)

lemma ingest_config [simp]:
  "tail_size (ingest T now m a) = tail_size a" "stale_s (ingest T now m a) = stale_s a"
  "dead_s (ingest T now m a) = dead_s a"
  by (cases m; simp add: ingest_frame_eq)+

lemma ingest_all_config [simp]:
  "tail_size (ingest_all T ms a) = tail_size a" "stale_s (ingest_all T ms a) = stale_s a"
  "dead_s (ingest_all T ms a) = dead_s a"
  by (induction ms rule: rev_induct; simp)+

section \<open>The invariant\<close>

definition keyed :: "(string, 't entity_state) btree_map \<Rightarrow> bool" where
  "keyed m \<longleftrightarrow> (\<forall>e \<in> set m. fst e = entity_key (es_scope (snd e)) (es_id (snd e)))"

definition app_wf :: "'t app \<Rightarrow> bool" where
  "app_wf a \<longleftrightarrow> length (tail a) \<le> tail_size a \<and> bm_wf (entities a) \<and> keyed (entities a)"

lemma bm_insert_subset: "set (bm_insert k v m) \<subseteq> insert (k, v) (set m)"
proof (induction k v m rule: bm_insert.induct)
  case (2 k v a b m)
  then show ?case by (cases "a < k") auto
qed simp

lemma keyed_insert:
  assumes "keyed m" and "k = entity_key (es_scope st) (es_id st)"
  shows "keyed (bm_insert k st m)"
  unfolding keyed_def
proof
  fix e assume "e \<in> set (bm_insert k st m)"
  then consider "e = (k, st)" | "e \<in> set m" using bm_insert_subset [of k st m] by blast
  then show "fst e = entity_key (es_scope (snd e)) (es_id (snd e))"
  proof cases
    case 1
    then show ?thesis by (simp add: assms(2))
  next
    case 2
    with assms(1) show ?thesis by (simp add: keyed_def)
  qed
qed

lemma app_wf_ingest: "app_wf a \<Longrightarrow> app_wf (ingest T now m a)"
  by (cases m) (simp_all add: app_wf_def ingest_frame_eq keyed_insert frame_key_def entity_of_def)

lemma app_wf_ingest_all: "app_wf a \<Longrightarrow> app_wf (ingest_all T ms a)"
  by (induction ms rule: rev_induct) (auto intro: app_wf_ingest)

lemma app_wf_new: "app_wf (app_new n s d)"
  by (simp add: app_wf_def app_new_def keyed_def)


section \<open>The abstract view: the state as a function of the message history\<close>

definition is_parse_error :: "'t ingest_msg \<Rightarrow> bool" where
  "is_parse_error m \<longleftrightarrow> (\<exists>e. m = ParseError e)"

definition is_io_error :: "'t ingest_msg \<Rightarrow> bool" where
  "is_io_error m \<longleftrightarrow> (\<exists>e. m = IoError e)"

lemma msg_kind_simps [simp]:
  "\<not> is_parse_error (Frame f)" "is_parse_error (ParseError e)" "\<not> is_parse_error (IoError s)"
  "\<not> is_io_error (Frame f)" "\<not> is_io_error (ParseError e)" "is_io_error (IoError s)"
  by (simp_all add: is_parse_error_def is_io_error_def)

definition table_entry :: "'t \<times> 't hawk_frame \<Rightarrow> string \<times> 't entity_state" where
  "table_entry nf = (frame_key (snd nf), entity_of nf)"

definition mirror_of_history ::
  "'t time_api \<Rightarrow> nat \<Rightarrow> int \<Rightarrow> int \<Rightarrow> ('t \<times> 't ingest_msg) list \<Rightarrow> 't app" where
  "mirror_of_history T n stale dead ms =
     \<lparr>tail = take n (rev (map (\<lambda>nf. to_compact_line T (snd nf)) (timed_frames ms))),
      tail_size = n,
      frames_seen = of_nat (length (timed_frames ms)),
      parse_errors = of_nat (length (filter (\<lambda>m. is_parse_error (snd m)) ms)),
      io_errors = of_nat (length (filter (\<lambda>m. is_io_error (snd m)) ms)),
      entities = bm.insert_all (map table_entry (timed_frames ms)) [],
      stale_s = stale, dead_s = dead\<rparr>"

lemma insert_all_snoc: "bm.insert_all (xs @ [(k, v)]) m = bm_insert k v (bm.insert_all xs m)"
  by (simp add: bm.insert_all_def)

lemma take_Cons_take: "take n (x # take n xs) = take n (x # xs)"
  by (cases n) (simp_all add: min_def)

lemma ingest_all_history:
  "ingest_all T ms (app_new n stale dead) = mirror_of_history T n stale dead ms"
proof (induction ms rule: rev_induct)
  case Nil
  then show ?case
    by (simp add: app_new_def mirror_of_history_def bm.insert_all_def)
next
  case (snoc x ms)
  obtain now m where x: "x = (now, m)" by force
  show ?case
    by (cases m)
      (simp_all add: x snoc mirror_of_history_def ingest_frame_eq table_entry_def
        insert_all_snoc take_Cons_take)
qed

section \<open>Sorting by a key\<close>

definition entity_rank ::
  "'t time_api \<Rightarrow> 't app \<Rightarrow> 't \<Rightarrow> 't entity_state \<Rightarrow> nat \<times> nat \<times> int \<times> string" where
  "entity_rank T a now st =
     (rank_live (compute_entity_liveness T a st now), level_rank (es_last_level st),
      - unix_nanos T (es_last_seen st), es_id st)"

lemma then_with_cmp: "then_with (cmp p q) (cmp r s) = cmp (p, r) (q, s)"
  by (auto simp: cmp_def)

lemma entity_cmp_rank: "entity_cmp T a now x y = cmp (entity_rank T a now x) (entity_rank T a now y)"
proof -
  have "cmp (unix_nanos T (es_last_seen y)) (unix_nanos T (es_last_seen x)) =
    cmp (- unix_nanos T (es_last_seen x)) (- unix_nanos T (es_last_seen y))"
    by (simp add: cmp_def)
  then show ?thesis
    by (simp add: entity_cmp_def entity_rank_def Let_def then_with_cmp)
qed

interpretation ec: total_preorder "entity_cmp T a now" for T a now
  by unfold_locales (auto simp: entity_cmp_rank)

lemma insert_by_cmp: "insert_by (\<lambda>x y. cmp (f x) (f y)) a xs = insort_key f a xs"
  by (induction xs) auto

lemma sort_by_cmp: "sort_by (\<lambda>x y. cmp (f x) (f y)) xs = sort_key f xs"
  by (induction xs) (auto simp: insert_by_cmp)

lemma sorted_entities_sort_key:
  "sorted_entities T a now = sort_key (entity_rank T a now) (bm_values (entities a))"
proof -
  have "entity_cmp T a now = (\<lambda>x y. cmp (entity_rank T a now x) (entity_rank T a now y))"
    by (simp add: fun_eq_iff entity_cmp_rank)
  then show ?thesis by (simp add: sorted_entities_def sort_by_cmp)
qed

section \<open>Counting\<close>

definition settled :: "'t time_api \<Rightarrow> 't app \<Rightarrow> 't \<Rightarrow> 't entity_state \<Rightarrow> bool" where
  "settled T a now st \<longleftrightarrow> compute_entity_liveness T a st now \<in> {Stale, Dead}"

lemma fold_count_entity:
  "fold (count_entity T a now) sts c =
     \<lparr>c_ok = c_ok c + of_nat (length (filter
         (\<lambda>st. \<not> settled T a now st \<and> es_last_level st \<notin> {LFail, LWarn}) sts)),
      c_warn = c_warn c + of_nat (length (filter
         (\<lambda>st. \<not> settled T a now st \<and> es_last_level st = LWarn) sts)),
      c_fail = c_fail c + of_nat (length (filter
         (\<lambda>st. \<not> settled T a now st \<and> es_last_level st = LFail) sts)),
      c_stale = c_stale c + of_nat (length (filter
         (\<lambda>st. compute_entity_liveness T a st now = Stale) sts)),
      c_dead = c_dead c + of_nat (length (filter
         (\<lambda>st. compute_entity_liveness T a st now = Dead) sts))\<rparr>"
proof (induction sts arbitrary: c)
  case Nil
  then show ?case by simp
next
  case (Cons st sts)
  then show ?case
    by (cases "compute_entity_liveness T a st now"; cases "es_last_level st")
      (simp_all add: count_entity_def settled_def add.assoc)
qed

lemma count_partition:
  "length (filter (\<lambda>st. \<not> settled T a now st \<and> es_last_level st \<notin> {LFail, LWarn}) sts)
   + length (filter (\<lambda>st. \<not> settled T a now st \<and> es_last_level st = LWarn) sts)
   + length (filter (\<lambda>st. \<not> settled T a now st \<and> es_last_level st = LFail) sts)
   + length (filter (\<lambda>st. compute_entity_liveness T a st now = Stale) sts)
   + length (filter (\<lambda>st. compute_entity_liveness T a st now = Dead) sts) = length sts"
proof (induction sts)
  case Nil
  then show ?case by simp
next
  case (Cons st sts)
  then show ?case
    by (cases "compute_entity_liveness T a st now"; cases "es_last_level st")
      (simp_all add: settled_def)
qed


text \<open>The stages of ageing, in order.\<close>

fun phase :: "liveness \<Rightarrow> nat" where
  "phase Active = 0"
| "phase Dream = 1"
| "phase Stale = 2"
| "phase Dead = 3"

section \<open>Properties\<close>

text \<open>
  C2: the state after any sequence of messages is the abstract view of that history: the
  tail shows the newest compact lines up to the configured size, the counters count frames,
  parse errors and I/O errors modulo \<open>2^64\<close>, the table is what inserting the frames in
  order gives, and the configuration is unchanged.
\<close>

theorem app_refines_history:
  "ingest_all T ms (app_new n stale dead) = mirror_of_history T n stale dead ms"
  by (rule ingest_all_history)

text \<open>
  C31: the invariant of the mirror holds in every state it can reach: the tail is never
  longer than configured, the table is strictly ordered, and every row is stored under the
  key made of its own scope and id.
\<close>

theorem app_invariant:
  "app_wf (ingest_all T ms (app_new n stale dead))"
  by (rule app_wf_ingest_all [OF app_wf_new])

text \<open>
  C15: a row of the entity table shows the last frame received for its key, with its level,
  message, kind and bag, last seen at the frame's own time or at the time of its arrival;
  there is a row for exactly the keys that occurred.
\<close>

theorem last_frame_wins:
  "bm_get (entities (ingest_all T ms (app_new n stale dead))) k =
     (case filter (\<lambda>nf. frame_key (snd nf) = k) (rev (timed_frames ms)) of
        [] \<Rightarrow> None
      | nf # _ \<Rightarrow> Some (entity_of nf))"
proof -
  have "map_of (map table_entry nfs) k =
    (case filter (\<lambda>nf. frame_key (snd nf) = k) nfs of [] \<Rightarrow> None | nf # _ \<Rightarrow> Some (entity_of nf))"
    for nfs :: "('a \<times> 'a hawk_frame) list"
    by (induction nfs) (simp_all add: table_entry_def)
  then show ?thesis
    by (simp add: ingest_all_history mirror_of_history_def bm.get_insert_all rev_map
        split: option.splits list.splits)
qed

text \<open>
  The header counts partition the table: every entity is counted once, as dead or stale
  by its age, otherwise as failing, warning or ok by its level, and the total is their sum.
\<close>

theorem counts_partition:
  "let live = (\<lambda>st. compute_entity_liveness T a st now);
       fresh = (\<lambda>st. live st = Active \<or> live st = Dream);
       tally = (\<lambda>p. length (filter p (bm_values (entities a))));
       ok = tally (\<lambda>st. fresh st \<and> es_last_level st \<in> {LOk, LInfo, LUnknown});
       warn = tally (\<lambda>st. fresh st \<and> es_last_level st = LWarn);
       fail = tally (\<lambda>st. fresh st \<and> es_last_level st = LFail);
       stale = tally (\<lambda>st. live st = Stale);
       dead = tally (\<lambda>st. live st = Dead)
   in counts_by_state T a now =
        (of_nat (length (entities a)), of_nat ok, of_nat warn, of_nat fail, of_nat stale, of_nat dead)
      \<and> ok + warn + fail + stale + dead = length (entities a)"
proof -
  have s: "\<not> settled T a now st \<longleftrightarrow>
    compute_entity_liveness T a st now = Active \<or> compute_entity_liveness T a st now = Dream" for st
    by (cases "compute_entity_liveness T a st now") (simp_all add: settled_def)
  have l: "l \<notin> {LFail, LWarn} \<longleftrightarrow> l \<in> {LOk, LInfo, LUnknown}" for l
    by (cases l) simp_all
  show ?thesis
    using count_partition [of T a now "bm_values (entities a)"]
    unfolding counts_by_state_def fold_count_entity Let_def s l by (simp add: bm_values_def)
qed

text \<open>
  C28: the entity list is a permutation of the table in which of any two entries the earlier
  one comes first by liveness rank (dead, stale, active, dream), then by severity (failures
  first), then by recency (newest first), then by id; entries equal in all four keep the
  order of the table.
\<close>

theorem sorted_entities_order:
  "mset (sorted_entities T a now) = mset (bm_values (entities a))
   \<and> sorted_wrt (\<lambda>x y. entity_rank T a now x \<le> entity_rank T a now y) (sorted_entities T a now)
   \<and> filter (\<lambda>y. entity_rank T a now y = r) (sorted_entities T a now) =
       filter (\<lambda>y. entity_rank T a now y = r) (bm_values (entities a))"
proof -
  have "sorted (map (entity_rank T a now) (sorted_entities T a now))"
    by (simp add: sorted_entities_sort_key)
  then show ?thesis
    by (simp add: sorted_entities_sort_key sorted_wrt_map sort_key_stable)
qed

text \<open>
  C16: as the clock advances without a new frame an entity only gets older: its state moves
  along active, dream, stale, dead and never back, whatever the two thresholds are.
\<close>

theorem liveness_monotone:
  assumes "unix_nanos T now \<le> unix_nanos T later"
  shows "phase (compute_entity_liveness T a st now) \<le> phase (compute_entity_liveness T a st later)"
  using whole_seconds_mono [OF assms, of "es_last_seen st"]
  by (simp add: compute_entity_liveness_def compute_liveness_with_ttl_def Let_def)

definition sample_entity :: "int entity_state" where
  "sample_entity = \<lparr>es_scope = ''grpc'', es_id = ''svc'', es_last_level = LOk, es_last_msg = ''SERVING'',
     es_last_seen = 100, es_kind = ''HEALTH'', es_kv = [(''ttl_dead_s'', ''60'')]\<rparr>"

theorem liveness_monotone_witness:
  "phase (compute_entity_liveness dec_time (app_new 5 10 30) sample_entity 107)
     \<le> phase (compute_entity_liveness dec_time (app_new 5 10 30) sample_entity 159)
   \<and> compute_entity_liveness dec_time (app_new 5 10 30) sample_entity 107 = Dream
   \<and> compute_entity_liveness dec_time (app_new 5 10 30) sample_entity 159 = Stale
   \<and> compute_entity_liveness dec_time (app_new 5 10 30) sample_entity 160 = Dead"
proof -
  have "unix_nanos dec_time 107 \<le> unix_nanos dec_time 159" by code_simp
  from liveness_monotone [OF this]
  have "phase (compute_entity_liveness dec_time (app_new 5 10 30) sample_entity 107)
     \<le> phase (compute_entity_liveness dec_time (app_new 5 10 30) sample_entity 159)" .
  moreover have "compute_entity_liveness dec_time (app_new 5 10 30) sample_entity 107 = Dream"
    by code_simp
  moreover have "compute_entity_liveness dec_time (app_new 5 10 30) sample_entity 159 = Stale"
    by code_simp
  moreover have "compute_entity_liveness dec_time (app_new 5 10 30) sample_entity 160 = Dead"
    by code_simp
  ultimately show ?thesis by blast
qed

text \<open>
  With thresholds \<open>0 < stale \<le> dead\<close> the states are the four bands of the age: active up
  to half the stale threshold (at least one second), dream below the stale threshold, stale
  below the dead threshold, dead from there on.
\<close>

theorem liveness_bands:
  assumes "0 < stale" and "stale \<le> dead"
  shows "compute_liveness_with_ttl T seen now stale dead =
     (let age = whole_seconds T now seen in
      if age < stale \<and> age \<le> max (stale div 2) 1 then Active
      else if age < stale then Dream
      else if age < dead then Stale
      else Dead)"
proof -
  have "stale sdiv 2 = stale div 2"
    using assms(1) by (simp add: signed_divide_int_def)
  with assms show ?thesis
    by (simp add: compute_liveness_with_ttl_def Let_def le_max_iff_disj)
qed

theorem liveness_bands_witness:
  "map (\<lambda>now. compute_liveness_with_ttl dec_time 0 now 10 30) [5, 6, 9, 10, 29, 30] =
     [Active, Dream, Dream, Stale, Stale, Dead]"
proof -
  have lb: "compute_liveness_with_ttl dec_time 0 now 10 30 =
    (let age = whole_seconds dec_time now 0 in
      if age < 10 \<and> age \<le> max (10 div 2) 1 then Active
      else if age < 10 then Dream
      else if age < 30 then Stale
      else Dead)" for now
    by (rule liveness_bands) simp_all
  show ?thesis unfolding list.map lb by code_simp
qed

text \<open>
  Entities whose scopes contain no colon occupy different rows whenever their scope or
  id differ.
\<close>

theorem entity_key_injective:
  assumes "CHR '':'' \<notin> set s1" and "CHR '':'' \<notin> set s2"
    and "entity_key s1 i1 = entity_key s2 i2"
  shows "s1 = s2 \<and> i1 = i2"
proof -
  have k: "split_once CHR '':'' (entity_key s i) = Some (s, i)" if "CHR '':'' \<notin> set s" for s i
    unfolding entity_key_def append.simps using that by (rule split_once_append)
  have "Some (s1, i1) = split_once CHR '':'' (entity_key s2 i2)"
    unfolding assms(3) [symmetric] k [OF assms(1)] ..
  then show ?thesis unfolding k [OF assms(2)] by (simp only: option.inject prod.inject)
qed

theorem entity_key_injective_witness:
  "entity_key ''grpc'' ''a:b'' = ''grpc:a:b'' \<and> ''grpc'' = ''grpc'' \<and> ''a:b'' = ''a:b''"
  using entity_key_injective [of "''grpc''" "''grpc''" "''a:b''" "''a:b''"]
  by (simp add: entity_key_def)

text \<open>Without that condition two different entities share a row, and the later replaces the other.\<close>

lemma entity_key_collision: "entity_key ''a:b'' ''c'' = entity_key ''a'' ''b:c''"
  by (simp add: entity_key_def)

end
