(* ===== verification/Hawk_Ui.thy ===== *)
theory Hawk_Ui
  imports Hawk_App
begin

text \<open>
  The terminal interface of the mirror (\<open>crates/hawk/src/ui.rs\<close> and
  \<open>crates/hawk/src/ui/draw.rs\<close>): the event loop with its set-up and tear-down of the
  terminal, and the texts and table rows that are drawn. The answers of the terminal library
  and the clock readings are data of the model; how widgets are laid out in cells is not
  modelled.
\<close>

section \<open>What is drawn\<close>

definition u64_to_string :: "u64 \<Rightarrow> string" where
  "u64_to_string w = to_dec (uint w)"

text \<open>\<open>now\<close> is the clock of the counts, \<open>shown\<close> the one that is printed.\<close>

definition draw_top_bar :: "'t time_api \<Rightarrow> 't app \<Rightarrow> 't \<Rightarrow> 't \<Rightarrow> string list" where
  "draw_top_bar T a now shown =
     (case counts_by_state T a now of (tot, ok, warn, fail, stale, dead) \<Rightarrow>
        [''HAWK'', ''  '',
         ''entities='' @ u64_to_string tot @ ''  ok='' @ u64_to_string ok @ ''  warn='' @ u64_to_string warn
           @ ''  fail='' @ u64_to_string fail @ ''  stale='' @ u64_to_string stale @ ''  dead=''
           @ u64_to_string dead,
         ''  '',
         ''frames='' @ u64_to_string (frames_seen a) @ ''  parse_err='' @ u64_to_string (parse_errors a)
           @ ''  io_err='' @ u64_to_string (io_errors a),
         ''  '',
         format_or_default T shown])"

definition draw_footer :: "string list" where
  "draw_footer = [''q or esc: quit'', ''  |  '', ''source: stdin or unix socket (TSV HawkFrames)'']"

fun live_str :: "liveness \<Rightarrow> string" where
  "live_str Active = ''active''"
| "live_str Dream = ''dream''"
| "live_str Stale = ''stale''"
| "live_str Dead = ''dead''"

definition entity_row :: "'t time_api \<Rightarrow> 't app \<Rightarrow> 't \<Rightarrow> 't entity_state \<Rightarrow> string list" where
  "entity_row T a now st =
     (let live = compute_entity_liveness T a st now;
          age = whole_seconds T now (es_last_seen st)
      in [es_scope st, es_id st, es_kind st, level_as_str (es_last_level st), live_str live,
          i64_to_string (max age 0) @ ''s'', es_last_msg st])"

definition table_header :: "string list" where
  "table_header = [''scope'', ''id'', ''kind'', ''level'', ''state'', ''age'', ''last msg'']"

text \<open>The clock is read for the rows and again inside \<open>sorted_entities\<close>.\<close>

definition draw_entity_table :: "'t time_api \<Rightarrow> 't app \<Rightarrow> 't \<Rightarrow> 't \<Rightarrow> string list list" where
  "draw_entity_table T a now now_sort =
     map (entity_row T a now) (take 200 (sorted_entities T a now_sort))"

definition draw_tail :: "'t app \<Rightarrow> string list" where
  "draw_tail a = tail a"

record view =
  v_top_bar :: "string list"
  v_header :: "string list"
  v_rows :: "string list list"
  v_tail :: "string list"
  v_footer :: "string list"

text \<open>The clock readings of one drawing, in order.\<close>

record 't draw_clock =
  dc_counts :: 't
  dc_shown :: 't
  dc_rows :: 't
  dc_sort :: 't

definition draw_app :: "'t time_api \<Rightarrow> 't app \<Rightarrow> 't draw_clock \<Rightarrow> view" where
  "draw_app T a c =
     \<lparr>v_top_bar = draw_top_bar T a (dc_counts c) (dc_shown c), v_header = table_header,
      v_rows = draw_entity_table T a (dc_rows c) (dc_sort c), v_tail = draw_tail a, v_footer = draw_footer\<rparr>"

section \<open>The event loop\<close>

datatype tui_event = KeyChar string | KeyEsc | KeyOther | NotKey

definition quits :: "tui_event \<Rightarrow> bool" where
  "quits ev \<longleftrightarrow> ev = KeyChar ''q'' \<or> ev = KeyEsc"

text \<open>
  One turn of the loop: the messages pending on the channel with the clock at which each is
  ingested, the answer to drawing a view, the monotonic clock in milliseconds when the
  timeout is computed, when the tick is checked and when it is renewed, and the answers to
  \<open>poll\<close> and \<open>read\<close>.
\<close>

record 't tick =
  tk_pending :: "('t \<times> 't ingest_msg) list"
  tk_clock :: "'t draw_clock"
  tk_draw :: "view \<Rightarrow> string + unit"
  tk_at_poll :: nat
  tk_poll :: "nat \<Rightarrow> string + bool"
  tk_read :: "string + tui_event"
  tk_at_end :: nat
  tk_renew :: nat

text \<open>\<open>tick_rate.checked_sub(last_tick.elapsed()).unwrap_or(0)\<close> is truncated subtraction.\<close>

definition poll_timeout :: "nat \<Rightarrow> nat \<Rightarrow> nat" where
  "poll_timeout last_tick now = 200 - (now - last_tick)"

text \<open>The end of the list is a loop still running.\<close>

fun tui_loop :: "'t time_api \<Rightarrow> 't app \<Rightarrow> nat \<Rightarrow> 't tick list \<Rightarrow> ('t app \<times> (string + unit)) option" where
  "tui_loop T a last_tick [] = None"
| "tui_loop T a last_tick (k # ks) =
     (let a = ingest_all T (tk_pending k) a;
          next = tui_loop T a (if 200 \<le> tk_at_end k - last_tick then tk_renew k else last_tick) ks
      in case tk_draw k (draw_app T a (tk_clock k)) of
           Inl e \<Rightarrow> Some (a, Err e)
         | Inr _ \<Rightarrow>
             (case tk_poll k (poll_timeout last_tick (tk_at_poll k)) of
                Inl e \<Rightarrow> Some (a, Err e)
              | Inr False \<Rightarrow> next
              | Inr True \<Rightarrow>
                  (case tk_read k of
                     Inl e \<Rightarrow> Some (a, Err e)
                   | Inr ev \<Rightarrow> if quits ev then Some (a, Ok ()) else next)))"

record terminal =
  t_raw :: bool
  t_alternate :: bool

record tui_answers =
  ta_enable_raw :: "string + unit"
  ta_enter :: "string + unit"
  ta_terminal :: "string + unit"
  ta_start :: nat
  ta_disable_raw :: "string + unit"
  ta_leave :: "string + unit"
  ta_show_cursor :: "string + unit"

text \<open>The state of the mirror, the terminal as it is left, and the result.\<close>

definition run_tui ::
  "'t time_api \<Rightarrow> tui_answers \<Rightarrow> 't app \<Rightarrow> 't tick list \<Rightarrow> ('t app \<times> terminal \<times> (string + unit)) option" where
  "run_tui T ans a ticks =
     (case ta_enable_raw ans of
        Inl e \<Rightarrow> Some (a, \<lparr>t_raw = False, t_alternate = False\<rparr>, Err e)
      | Inr _ \<Rightarrow> (case ta_enter ans of
          Inl e \<Rightarrow> Some (a, \<lparr>t_raw = True, t_alternate = False\<rparr>, Err e)
        | Inr _ \<Rightarrow> (case ta_terminal ans of
            Inl e \<Rightarrow> Some (a, \<lparr>t_raw = True, t_alternate = True\<rparr>, Err e)
          | Inr _ \<Rightarrow> (case tui_loop T a (ta_start ans) ticks of
              None \<Rightarrow> None
            | Some (a', Inl e) \<Rightarrow> Some (a', \<lparr>t_raw = True, t_alternate = True\<rparr>, Err e)
            | Some (a', Inr _) \<Rightarrow> (case ta_disable_raw ans of
                Inl e \<Rightarrow> Some (a', \<lparr>t_raw = True, t_alternate = True\<rparr>, Err e)
              | Inr _ \<Rightarrow> (case ta_leave ans of
                  Inl e \<Rightarrow> Some (a', \<lparr>t_raw = False, t_alternate = True\<rparr>, Err e)
                | Inr _ \<Rightarrow> Some (a', \<lparr>t_raw = False, t_alternate = False\<rparr>, ta_show_cursor ans)))))))"

section \<open>What the loop ingests\<close>

lemma ingest_all_append: "ingest_all T (ms @ ns) a = ingest_all T ns (ingest_all T ms a)"
  by (simp add: ingest_all_def)

lemma tui_loop_ingests:
  "tui_loop T a last_tick ks = Some (a', r) \<Longrightarrow>
     \<exists>n. 0 < n \<and> n \<le> length ks \<and> a' = ingest_all T (concat (map tk_pending (take n ks))) a"
proof (induction ks arbitrary: a last_tick)
  case (Cons k ks)
  let ?a = "ingest_all T (tk_pending k) a"
  from Cons.prems consider "a' = ?a" | l where "tui_loop T ?a l ks = Some (a', r)"
    by (auto simp: Let_def split: sum.splits bool.splits if_splits)
  then show ?case
  proof cases
    case 1
    then show ?thesis by (intro exI [of _ 1]) simp
  next
    case 2
    from Cons.IH [OF this] obtain n where "0 < n" "n \<le> length ks"
      "a' = ingest_all T (concat (map tk_pending (take n ks))) ?a" by blast
    then show ?thesis by (intro exI [of _ "Suc n"]) (simp add: ingest_all_append)
  qed
qed simp

section \<open>Properties\<close>


definition demo_tick :: "int tick" where
  "demo_tick = \<lparr>tk_pending = [(5, Frame sample_frame), (6, IoError ''x'')],
     tk_clock = \<lparr>dc_counts = 6, dc_shown = 6, dc_rows = 6, dc_sort = 6\<rparr>, tk_draw = (\<lambda>_. Ok ()),
     tk_at_poll = 20, tk_poll = (\<lambda>t. Ok (t = 180)), tk_read = Ok (KeyChar ''q''), tk_at_end = 60, tk_renew = 60\<rparr>"

definition demo_answers :: tui_answers where
  "demo_answers = \<lparr>ta_enable_raw = Ok (), ta_enter = Ok (), ta_terminal = Ok (), ta_start = 0,
     ta_disable_raw = Ok (), ta_leave = Ok (), ta_show_cursor = Ok ()\<rparr>"

definition demo_mirror :: "int app" where
  "demo_mirror = ingest_all dec_time [(5, Frame sample_frame), (6, IoError ''x'')] (app_new 10 10 30)"


lemma demo_quit:
  "run_tui dec_time demo_answers (app_new 10 10 30) [demo_tick] =
     Some (demo_mirror, \<lparr>t_raw = False, t_alternate = False\<rparr>, Ok ())"
  by (simp add: run_tui_def demo_answers_def demo_tick_def demo_mirror_def poll_timeout_def quits_def)

text \<open>
  The table shows at most 200 rows, one for each of the first entities of the sorted
  list, with the state and the age of its entity at drawing time, an age in the future shown
  as zero; and an entity that is left out never comes before one that is shown.
\<close>

theorem entity_table_exact:
  "length (draw_entity_table T a now now_sort) = min 200 (length (entities a))
   \<and> map (\<lambda>row. (row ! 0, row ! 1, row ! 4, row ! 5)) (draw_entity_table T a now now_sort) =
       map (\<lambda>st. (es_scope st, es_id st, live_str (compute_entity_liveness T a st now),
              to_dec (max 0 (whole_seconds T now (es_last_seen st))) @ ''s''))
         (take 200 (sorted_entities T a now_sort))
   \<and> list_all (\<lambda>shown. list_all (\<lambda>hidden. entity_cmp T a now_sort shown hidden \<noteq> Greater)
         (drop 200 (sorted_entities T a now_sort))) (take 200 (sorted_entities T a now_sort))"
proof -
  let ?es = "sorted_entities T a now_sort"
  have "sorted_wrt (\<lambda>x y. entity_cmp T a now_sort x y \<noteq> Greater) (take 200 ?es @ drop 200 ?es)"
    unfolding append_take_drop_id sorted_entities_def by (rule ec.sorted_sort_by)
  then have "list_all (\<lambda>shown. list_all (\<lambda>hidden. entity_cmp T a now_sort shown hidden \<noteq> Greater)
      (drop 200 ?es)) (take 200 ?es)"
    unfolding sorted_wrt_append list_all_iff by blast
  moreover have "length ?es = length (entities a)"
    by (simp add: sorted_entities_def bm_values_def)
  moreover have "i64_to_string (max n 0) = to_dec (max 0 n)" for n
    by (simp add: i64_to_string_def max.commute)
  ultimately show ?thesis
    by (simp add: draw_entity_table_def entity_row_def Let_def comp_def min.commute)
qed

text \<open>A turn that goes on: the view is drawn and there is no key, or one that does not quit.\<close>

definition calm_tick :: "'t tick \<Rightarrow> bool" where
  "calm_tick k \<longleftrightarrow> (\<forall>v. tk_draw k v = Ok ()) \<and> (\<forall>t. tk_poll k t = Ok False \<or>
     tk_poll k t = Ok True \<and> (\<exists>ev. tk_read k = Ok ev \<and> \<not> quits ev))"

definition quit_tick :: "'t tick \<Rightarrow> bool" where
  "quit_tick k \<longleftrightarrow> (\<forall>v. tk_draw k v = Ok ()) \<and> (\<forall>t. tk_poll k t = Ok True)
     \<and> (\<exists>ev. tk_read k = Ok ev \<and> quits ev)"

lemma tui_loop_calm:
  assumes "calm_tick k"
  shows "\<exists>l'. \<forall>ks. tui_loop T a l (k # ks) = tui_loop T (ingest_all T (tk_pending k) a) l' ks"
proof -
  from assms consider "tk_poll k (poll_timeout l (tk_at_poll k)) = Ok False"
    | ev where "tk_poll k (poll_timeout l (tk_at_poll k)) = Ok True" "tk_read k = Ok ev" "\<not> quits ev"
    by (force simp: calm_tick_def)
  then show ?thesis
    using assms by cases (auto simp: calm_tick_def Let_def intro!: exI [of _ "if 200 \<le> tk_at_end k - l then tk_renew k else l"])
qed

text \<open>
  C22: The loop of the mirror ends when it is told to. As long as the turns go on, whatever
  they bring, it is still running; the first turn in which \<open>q\<close> or Esc is pressed ends it
  without an error, with exactly the messages of the turns up to and with that one ingested,
  however many turns would follow.
\<close>

theorem tui_ends_at_quit:
  assumes "list_all calm_tick us" and "quit_tick k"
  shows "tui_loop T a l us = None
    \<and> tui_loop T a l (us @ k # vs) = Some (ingest_all T (concat (map tk_pending (us @ [k]))) a, Ok ())"
  using assms(1)
proof (induction us arbitrary: a l)
  case Nil
  then show ?case using assms(2) by (auto simp: quit_tick_def Let_def)
next
  case (Cons u us)
  then have u: "calm_tick u" and us: "list_all calm_tick us" by simp_all
  from tui_loop_calm [OF u] obtain l' where
    "\<And>ks. tui_loop T a l (u # ks) = tui_loop T (ingest_all T (tk_pending u) a) l' ks" by blast
  with Cons.IH [OF us, of "ingest_all T (tk_pending u) a" l'] show ?case
    by (simp add: ingest_all_append del: tui_loop.simps)
qed

theorem tui_ends_at_quit_witness:
  "tui_loop dec_time (app_new 10 10 30) 0 [demo_tick\<lparr>tk_read := Ok KeyOther\<rparr>] = None
    \<and> tui_loop dec_time (app_new 10 10 30) 0 [demo_tick\<lparr>tk_read := Ok KeyOther\<rparr>, demo_tick\<lparr>tk_poll := (\<lambda>_. Ok True)\<rparr>] =
        Some (ingest_all dec_time (concat (map tk_pending [demo_tick\<lparr>tk_read := Ok KeyOther\<rparr>, demo_tick\<lparr>tk_poll := (\<lambda>_. Ok True)\<rparr>])) (app_new 10 10 30), Ok ())"
  using tui_ends_at_quit [of "[demo_tick\<lparr>tk_read := Ok KeyOther\<rparr>]" "demo_tick\<lparr>tk_poll := (\<lambda>_. Ok True)\<rparr>" dec_time "app_new 10 10 30" 0 "[]"]
  by (simp add: calm_tick_def quit_tick_def demo_tick_def quits_def del: tui_loop.simps)

end
