(* ===== verification/Rust_Path.thy ===== *)
theory Rust_Path
  imports Rust_Str "HOL-Library.Product_Lexorder"
begin

text \<open>
  \<open>std::path\<close> on Unix: a path is its bytes, \<open>components\<close> normalises repeated
  separators and inner dots, \<open>join\<close> appends or replaces, and paths compare by their
  components. The lemmas show when joining a relative path keeps below the base directory.
\<close>

datatype component = RootDir | CurDir | ParentDir | Normal string

text \<open>The derived order of \<open>Component\<close>: by constructor, then by name.\<close>

fun component_code :: "component \<Rightarrow> nat \<times> string" where
  "component_code RootDir = (0, [])"
| "component_code CurDir = (1, [])"
| "component_code ParentDir = (2, [])"
| "component_code (Normal s) = (3, s)"

lemma component_code_inject [simp]: "component_code a = component_code b \<longleftrightarrow> a = b"
  by (cases a; cases b) auto

instantiation component :: linorder
begin

definition less_eq_component :: "component \<Rightarrow> component \<Rightarrow> bool" where
  "a \<le> b \<longleftrightarrow> component_code a \<le> component_code b"

definition less_component :: "component \<Rightarrow> component \<Rightarrow> bool" where
  "a < b \<longleftrightarrow> component_code a < component_code b"

instance
  by standard
    (simp_all only: less_eq_component_def less_component_def component_code_inject
      less_le_not_le order.refl linear, auto dest: order.trans antisym)

end

definition norm_part :: "string \<Rightarrow> component option" where
  "norm_part s =
     (if s = [] \<or> s = ''.'' then None
      else if s = ''..'' then Some ParentDir
      else Some (Normal s))"

definition is_absolute :: "string \<Rightarrow> bool" where
  "is_absolute p \<longleftrightarrow> prefix ''/'' p"

definition components :: "string \<Rightarrow> component list" where
  "components p =
     (let parts = split_on CHR ''/'' p in
      if is_absolute p then RootDir # List.map_filter norm_part parts
      else if hd parts = ''.'' then CurDir # List.map_filter norm_part (tl parts)
      else List.map_filter norm_part parts)"

definition path_join :: "string \<Rightarrow> string \<Rightarrow> string" where
  "path_join base p =
     (if is_absolute p then p
      else if base = [] \<or> suffix ''/'' base then base @ p
      else base @ ''/'' @ p)"

definition path_cmp :: "string \<Rightarrow> string \<Rightarrow> ordering" where
  "path_cmp a b = cmp (components a) (components b)"

section \<open>Joining\<close>

lemma split_on_append_sep: "split_on c (s @ c # t) = split_on c s @ split_on c t"
proof (induction s)
  case Nil
  then show ?case by simp
next
  case (Cons x s)
  then show ?case by (cases "split_on c s") auto
qed

lemma map_filter_norm_CurDir: "CurDir \<notin> set (List.map_filter norm_part ps)"
  by (auto simp: map_filter_def norm_part_def split: if_splits)

lemma components_rel:
  assumes "\<not> is_absolute p"
  shows "filter (\<lambda>c. c \<noteq> CurDir) (components p) = List.map_filter norm_part (split_on CHR ''/'' p)"
proof -
  let ?ps = "split_on CHR ''/'' p"
  obtain h t where ps: "?ps = h # t" by (cases ?ps) auto
  have f: "filter (\<lambda>c. c \<noteq> CurDir) (List.map_filter norm_part qs) = List.map_filter norm_part qs" for qs
    using map_filter_norm_CurDir by (auto intro!: filter_True)
  show ?thesis
    using assms ps by (auto simp: components_def Let_def f) (simp_all add: map_filter_def norm_part_def)
qed

lemma hd_split_on_append:
  "hd (split_on c (s @ c # t)) = hd (split_on c s)"
  by (simp add: split_on_append_sep hd_append)

lemma split_on_snoc: "split_on c (s @ [c]) = split_on c s @ [[]]"
  by (simp add: split_on_append_sep)

text \<open>
  Joining a relative path appends its components (without a leading dot) to those of a
  non-empty base.
\<close>

lemma components_join:
  assumes "base \<noteq> []" and "\<not> is_absolute p"
  shows "components (path_join base p) = components base @ filter (\<lambda>c. c \<noteq> CurDir) (components p)"
proof -
  let ?m = "List.map_filter norm_part"
  obtain b where b: "path_join base p = b @ CHR ''/'' # p"
    "?m (split_on CHR ''/'' base) = ?m (split_on CHR ''/'' b)"
    "is_absolute base \<longleftrightarrow> is_absolute (b @ CHR ''/'' # p)"
    "hd (split_on CHR ''/'' base) = hd (split_on CHR ''/'' b)"
    "?m (tl (split_on CHR ''/'' base)) = ?m (tl (split_on CHR ''/'' b))"
  proof (cases "suffix ''/'' base")
    case True
    then obtain b where base: "base = b @ ''/''" by (auto simp: suffix_def)
    have "is_absolute (b @ ''/'') = is_absolute (b @ CHR ''/'' # p)"
      by (cases b) (auto simp: is_absolute_def)
    then show ?thesis
      using that [of b] assms(2) base
      by (simp add: path_join_def split_on_snoc hd_append tl_append)
        (simp add: map_filter_def norm_part_def split: list.splits)
  next
    case False
    have "is_absolute base = is_absolute (base @ CHR ''/'' # p)"
      using assms(1) by (cases base) (auto simp: is_absolute_def)
    with False show ?thesis
      using that [of base] assms by (simp add: path_join_def)
  qed
  have mf: "?m (xs @ ys) = ?m xs @ ?m ys" for xs ys
    by (simp add: map_filter_def)
  show ?thesis
    unfolding components_rel [OF assms(2)] b(1)
    using b(2-5)
    by (simp add: components_def Let_def split_on_append_sep mf hd_append tl_append
        split: list.splits)
qed

lemma ParentDir_components: "ParentDir \<in> set (components p) \<longleftrightarrow> ''..'' \<in> set (split_on CHR ''/'' p)"
proof -
  let ?ps = "split_on CHR ''/'' p"
  have m: "ParentDir \<in> set (List.map_filter norm_part qs) \<longleftrightarrow> ''..'' \<in> set qs" for qs
    by (induction qs) (auto simp: map_filter_def norm_part_def)
  obtain h t where "?ps = h # t" by (cases ?ps) auto
  then show ?thesis by (auto simp: components_def Let_def m simp del: map_filter_simps)
qed

section \<open>Lexical resolution\<close>

text \<open>Where a component list leads when every parent component goes up one name.\<close>

fun resolve :: "string list \<Rightarrow> component list \<Rightarrow> string list" where
  "resolve acc [] = acc"
| "resolve acc (RootDir # cs) = resolve [] cs"
| "resolve acc (CurDir # cs) = resolve acc cs"
| "resolve acc (ParentDir # cs) = resolve (butlast acc) cs"
| "resolve acc (Normal s # cs) = resolve (acc @ [s]) cs"

lemma resolve_append: "resolve acc (xs @ ys) = resolve (resolve acc xs) ys"
  by (induction acc xs rule: resolve.induct) auto

lemma resolve_down:
  "ParentDir \<notin> set cs \<Longrightarrow> RootDir \<notin> set cs \<Longrightarrow> prefix acc (resolve acc cs)"
proof (induction acc cs rule: resolve.induct)
  case (5 acc s cs)
  then have "prefix (acc @ [s]) (resolve acc (Normal s # cs))" by simp
  then show ?case by (metis append_prefixD)
qed auto

lemma RootDir_rel: "\<not> is_absolute p \<Longrightarrow> RootDir \<notin> set (components p)"
  by (auto simp: components_def Let_def map_filter_def norm_part_def split: if_splits)

lemma join_stays_below:
  assumes "\<not> is_absolute p" and "ParentDir \<notin> set (components p)"
  shows "prefix (resolve cwd (components base)) (resolve cwd (components (path_join base p)))"
proof (cases "base = []")
  case True
  then have "resolve cwd (components base) = cwd" "path_join base p = p"
    using assms(1)
    by (simp_all add: path_join_def components_def is_absolute_def map_filter_def norm_part_def)
  then show ?thesis
    using resolve_down [of "components p" cwd] assms RootDir_rel by simp
next
  case False
  show ?thesis
    unfolding components_join [OF False assms(1)] resolve_append
    using assms RootDir_rel by (intro resolve_down) auto
qed

end
