(* ===== verification/Hawk_Packs.thy ===== *)
theory Hawk_Packs
  imports Rust_Path BTree_Map
begin

text \<open>
  The pack loader (\<open>crates/hawk/src/packs.rs\<close>): manifests, threads and their argument
  schemas, path safety, the index of threads, and the validation of transform variables.
  The file system and the TOML deserialiser are parameters: a record of the calls the loader
  makes, and a function from manifest text to the manifest structure with its defaults.
\<close>

section \<open>The model\<close>

datatype arg_type = ArgString | ArgInt | ArgBool

record arg_spec =
  a_name :: string
  a_ty :: arg_type
  a_default :: string
  a_help :: string

record thread =
  th_id :: string
  th_title :: string
  th_kind :: string
  th_file :: string
  th_description :: string
  th_args :: "arg_spec list"

record pack =
  pk_id :: string
  pk_name :: string
  pk_version :: string
  pk_author :: string
  pk_description :: string
  pk_root_dir :: string
  pk_threads :: "thread list"

record thread_resolved =
  tr_pack_id :: string
  tr_thread_id :: string
  tr_title :: string
  tr_kind :: string
  tr_description :: string
  tr_script_path :: string
  tr_args :: "arg_spec list"

text \<open>
  \<open>threads\<close> is a \<open>HashMap\<close>: the pairs in some order, with distinct keys. Keys are only
  ever inserted when absent.
\<close>

record pack_index =
  ix_packs :: "pack list"
  ix_threads :: "(string \<times> thread_resolved) list"

section \<open>The manifest\<close>

datatype 'v toml_value =
  TomlString string | TomlInteger int | TomlFloat 'v | TomlBoolean bool | TomlOther 'v

record 'v manifest_arg =
  ma_name :: string
  ma_ty :: string
  ma_default :: "'v toml_value option"
  ma_help :: string

record 'v manifest_thread =
  mt_id :: string
  mt_title :: string
  mt_kind :: string
  mt_file :: string
  mt_description :: string
  mt_arg :: "'v manifest_arg list"

record manifest_pack =
  mp_id :: string
  mp_name :: string
  mp_version :: string
  mp_author :: string
  mp_description :: string

record 'v manifest =
  mf_pack :: manifest_pack
  mf_thread :: "'v manifest_thread list"

text \<open>The calls into \<open>std::fs\<close> and into the \<open>toml\<close> crate.\<close>

record fs_api =
  fs_exists :: "string \<Rightarrow> bool"
  fs_is_dir :: "string \<Rightarrow> bool"
  fs_read_dir :: "string \<Rightarrow> string + (string + string) list"
  fs_read_to_string :: "string \<Rightarrow> string + string"

record 'v toml_api =
  toml_from_str :: "string \<Rightarrow> string + 'v manifest"
  toml_show :: "'v \<Rightarrow> string"

datatype path_error = AbsolutePath | ParentPath

datatype pack_error =
    ReadManifest string string
  | TomlDeserialize string
  | UnsafeFile string path_error
  | EmptyThreadId
  | EmptyThreadKind string
  | MissingFile string string
  | BadArg string string string
  | ReadPacksDir string string
  | DirEntry string
  | ParsePack string pack_error
  | ThreadCollision string

section \<open>Parsing a manifest\<close>

definition parse_arg_type :: "string \<Rightarrow> string + arg_type" where
  "parse_arg_type s =
     (let t = to_ascii_lowercase (trim s) in
      if t = ''string'' then Ok ArgString
      else if t = ''int'' then Ok ArgInt
      else if t = ''bool'' then Ok ArgBool
      else Err (''unknown arg type: '' @ s))"

definition is_bool_text :: "string \<Rightarrow> bool" where
  "is_bool_text vv \<longleftrightarrow> vv = ''true'' \<or> vv = ''false'' \<or> vv = ''1'' \<or> vv = ''0''"

definition validate_arg_default :: "arg_spec \<Rightarrow> string + unit" where
  "validate_arg_default spec =
     (case a_ty spec of
        ArgString \<Rightarrow> Ok ()
      | ArgInt \<Rightarrow>
          if trim (a_default spec) = [] then Ok ()
          else (case parse_i64 (a_default spec) of
                  Some _ \<Rightarrow> Ok ()
                | None \<Rightarrow> Err (''default expects int, got '' @ a_default spec))
      | ArgBool \<Rightarrow>
          let vv = to_ascii_lowercase (a_default spec) in
          if vv = [] \<or> is_bool_text vv then Ok ()
          else Err (''default expects bool, got '' @ a_default spec))"

fun bool_to_string :: "bool \<Rightarrow> string" where
  "bool_to_string True = ''true''"
| "bool_to_string False = ''false''"

fun toml_value_to_string :: "'v toml_api \<Rightarrow> 'v toml_value option \<Rightarrow> string" where
  "toml_value_to_string P (Some (TomlString s)) = s"
| "toml_value_to_string P (Some (TomlInteger i)) = i64_to_string i"
| "toml_value_to_string P (Some (TomlFloat f)) = toml_show P f"
| "toml_value_to_string P (Some (TomlBoolean b)) = bool_to_string b"
| "toml_value_to_string P (Some (TomlOther v)) = toml_show P v"
| "toml_value_to_string P None = []"

definition ensure_safe_rel_path :: "string \<Rightarrow> path_error + unit" where
  "ensure_safe_rel_path file =
     (if is_absolute file then Err AbsolutePath
      else if ParentDir \<in> set (components file) then Err ParentPath
      else Ok ())"

definition parse_arg :: "'v toml_api \<Rightarrow> string \<Rightarrow> 'v manifest_arg \<Rightarrow> pack_error + arg_spec" where
  "parse_arg P tid a =
     and_then (map_err (BadArg tid (ma_name a)) (parse_arg_type (ma_ty a))) (\<lambda>ty.
       let spec = \<lparr>a_name = ma_name a, a_ty = ty,
                   a_default = toml_value_to_string P (ma_default a), a_help = ma_help a\<rparr>
       in and_then (map_err (BadArg tid (a_name spec)) (validate_arg_default spec)) (\<lambda>_. Ok spec))"

definition parse_thread ::
  "fs_api \<Rightarrow> 'v toml_api \<Rightarrow> string \<Rightarrow> 'v manifest_thread \<Rightarrow> pack_error + thread" where
  "parse_thread F P pack_dir t =
     and_then (map_err (UnsafeFile (mt_id t)) (ensure_safe_rel_path (mt_file t))) (\<lambda>_.
       if trim (mt_id t) = [] then Err EmptyThreadId
       else if trim (mt_kind t) = [] then Err (EmptyThreadKind (mt_id t))
       else let script_path = path_join pack_dir (mt_file t) in
         if \<not> fs_exists F script_path then Err (MissingFile (mt_id t) script_path)
         else and_then (try_map (parse_arg P (mt_id t)) (mt_arg t)) (\<lambda>args.
           Ok \<lparr>th_id = mt_id t, th_title = mt_title t, th_kind = mt_kind t, th_file = mt_file t,
               th_description = mt_description t, th_args = args\<rparr>))"

definition parse_pack_manifest ::
  "fs_api \<Rightarrow> 'v toml_api \<Rightarrow> string \<Rightarrow> string \<Rightarrow> pack_error + pack" where
  "parse_pack_manifest F P pack_dir manifest_path =
     and_then (map_err (ReadManifest manifest_path) (fs_read_to_string F manifest_path)) (\<lambda>raw.
     and_then (map_err TomlDeserialize (toml_from_str P raw)) (\<lambda>man.
     and_then (try_map (parse_thread F P pack_dir) (mf_thread man)) (\<lambda>threads.
       Ok \<lparr>pk_id = mp_id (mf_pack man), pk_name = mp_name (mf_pack man),
           pk_version = mp_version (mf_pack man), pk_author = mp_author (mf_pack man),
           pk_description = mp_description (mf_pack man),
           pk_root_dir = pack_dir, pk_threads = threads\<rparr>)))"

section \<open>Loading the packs directory\<close>

definition resolve_one :: "pack \<Rightarrow> thread \<Rightarrow> thread_resolved" where
  "resolve_one pk th =
     \<lparr>tr_pack_id = pk_id pk, tr_thread_id = th_id th, tr_title = th_title th,
      tr_kind = th_kind th, tr_description = th_description th,
      tr_script_path = path_join (pk_root_dir pk) (th_file th), tr_args = th_args th\<rparr>"

fun index_threads ::
  "pack \<Rightarrow> thread list \<Rightarrow> (string \<times> thread_resolved) list
    \<Rightarrow> pack_error + (string \<times> thread_resolved) list" where
  "index_threads pk [] threads = Ok threads"
| "index_threads pk (th # ths) threads =
     (if th_id th \<in> fst ` set threads then Err (ThreadCollision (th_id th))
      else index_threads pk ths (threads @ [(th_id th, resolve_one pk th)]))"

fun collect_dirs :: "fs_api \<Rightarrow> (string + string) list \<Rightarrow> pack_error + string list" where
  "collect_dirs F [] = Ok []"
| "collect_dirs F (Inl e # es) = Err (DirEntry e)"
| "collect_dirs F (Inr p # es) =
     and_then (collect_dirs F es) (\<lambda>ds. Ok (if fs_is_dir F p then p # ds else ds))"

fun load_dirs ::
  "fs_api \<Rightarrow> 'v toml_api \<Rightarrow> string list \<Rightarrow> pack_index \<Rightarrow> pack_error + pack_index" where
  "load_dirs F P [] ix = Ok ix"
| "load_dirs F P (dir # dirs) ix =
     (let manifest_path = path_join dir ''pack.toml'' in
      if \<not> fs_exists F manifest_path then load_dirs F P dirs ix
      else
        and_then (map_err (ParsePack manifest_path) (parse_pack_manifest F P dir manifest_path)) (\<lambda>pk.
        and_then (index_threads pk (pk_threads pk) (ix_threads ix)) (\<lambda>threads.
          load_dirs F P dirs \<lparr>ix_packs = ix_packs ix @ [pk], ix_threads = threads\<rparr>)))"

definition load_packs :: "fs_api \<Rightarrow> 'v toml_api \<Rightarrow> string \<Rightarrow> pack_error + pack_index" where
  "load_packs F P packs_dir =
     (let empty = \<lparr>ix_packs = [], ix_threads = []\<rparr> in
      if \<not> fs_exists F packs_dir then Ok empty
      else
        and_then (map_err (ReadPacksDir packs_dir) (fs_read_dir F packs_dir)) (\<lambda>entries.
        and_then (collect_dirs F entries) (\<lambda>dirs.
          load_dirs F P (sort_by path_cmp dirs) empty)))"

definition resolve_thread :: "pack_index \<Rightarrow> string \<Rightarrow> thread_resolved option" where
  "resolve_thread ix tid = map_of (ix_threads ix) tid"

section \<open>Transform variables\<close>

definition allowed_args :: "arg_spec list \<Rightarrow> string \<rightharpoonup> arg_spec" where
  "allowed_args args = fold (\<lambda>a m. m(a_name a \<mapsto> a)) args Map.empty"

definition check_tvar :: "(string \<rightharpoonup> arg_spec) \<Rightarrow> string \<times> string \<Rightarrow> string + unit" where
  "check_tvar allowed kv =
     (case kv of (k, v) \<Rightarrow>
        and_then (ok_or (''unknown tvar: '' @ k) (allowed k)) (\<lambda>spec.
          case a_ty spec of
            ArgString \<Rightarrow> Ok ()
          | ArgInt \<Rightarrow>
              (case parse_i64 v of
                 Some _ \<Rightarrow> Ok ()
               | None \<Rightarrow> Err (''tvar '' @ k @ '' expects int, got '' @ v))
          | ArgBool \<Rightarrow>
              (let vv = to_ascii_lowercase v in
               if \<not> is_bool_text vv then Err (''tvar '' @ k @ '' expects bool, got '' @ v)
               else Ok ())))"

fun validate_loop :: "(string \<rightharpoonup> arg_spec) \<Rightarrow> (string \<times> string) list \<Rightarrow> string + unit" where
  "validate_loop allowed [] = Ok ()"
| "validate_loop allowed (kv # kvs) =
     and_then (check_tvar allowed kv) (\<lambda>_. validate_loop allowed kvs)"

definition validate_tvars :: "arg_spec list \<Rightarrow> (string, string) btree_map \<Rightarrow> string + unit" where
  "validate_tvars args tvars = validate_loop (allowed_args args) tvars"

definition default_tvars :: "arg_spec list \<Rightarrow> (string, string) btree_map" where
  "default_tvars args = fold (\<lambda>a out. bm_insert (a_name a) (a_default a) out) args []"


section \<open>What a parsed pack guarantees\<close>

definition thread_ok :: "fs_api \<Rightarrow> string \<Rightarrow> thread \<Rightarrow> bool" where
  "thread_ok F dir th \<longleftrightarrow>
     \<not> is_absolute (th_file th) \<and> ParentDir \<notin> set (components (th_file th))
     \<and> trim (th_id th) \<noteq> [] \<and> trim (th_kind th) \<noteq> []
     \<and> fs_exists F (path_join dir (th_file th))
     \<and> (\<forall>a \<in> set (th_args th). validate_arg_default a = Ok ())"

lemma ensure_safe_iff:
  "ensure_safe_rel_path f = Ok u \<longleftrightarrow> \<not> is_absolute f \<and> ParentDir \<notin> set (components f)"
  by (simp add: ensure_safe_rel_path_def)

lemma parse_arg_ok: "parse_arg P tid a = Ok spec \<Longrightarrow> validate_arg_default spec = Ok ()"
  by (auto simp: parse_arg_def Let_def result_simps)

lemma parse_thread_ok:
  assumes "parse_thread F P dir t = Ok th"
  shows "thread_ok F dir th" and "th_id th = mt_id t"
proof -
  from assms have safe: "ensure_safe_rel_path (mt_file t) = Ok ()"
    and ids: "trim (mt_id t) \<noteq> []" "trim (mt_kind t) \<noteq> []"
      "fs_exists F (path_join dir (mt_file t))"
    by (auto simp: parse_thread_def Let_def result_simps split: if_splits)
  from assms obtain args where args: "try_map (parse_arg P (mt_id t)) (mt_arg t) = Ok args"
    and th: "th = \<lparr>th_id = mt_id t, th_title = mt_title t, th_kind = mt_kind t,
      th_file = mt_file t, th_description = mt_description t, th_args = args\<rparr>"
    by (auto simp: parse_thread_def Let_def result_simps split: if_splits)
  have "\<forall>a \<in> set args. validate_arg_default a = Ok ()"
    using args by (auto dest: try_map_Inr_set parse_arg_ok)
  with safe ids show "thread_ok F dir th" "th_id th = mt_id t"
    by (auto simp: thread_ok_def th ensure_safe_iff)
qed

definition pack_ok :: "fs_api \<Rightarrow> pack \<Rightarrow> bool" where
  "pack_ok F pk \<longleftrightarrow> (\<forall>th \<in> set (pk_threads pk). thread_ok F (pk_root_dir pk) th)"

lemma parse_pack_manifest_ok:
  assumes "parse_pack_manifest F P dir mp = Ok pk"
  shows "pack_ok F pk"
  using assms
  by (auto simp: parse_pack_manifest_def result_simps pack_ok_def
      dest!: try_map_Inr_set intro: parse_thread_ok(1))

section \<open>What the index guarantees\<close>

definition pack_entries :: "pack \<Rightarrow> (string \<times> thread_resolved) list" where
  "pack_entries pk = map (\<lambda>th. (th_id th, resolve_one pk th)) (pk_threads pk)"

definition index_ok :: "fs_api \<Rightarrow> pack_index \<Rightarrow> bool" where
  "index_ok F ix \<longleftrightarrow>
     ix_threads ix = concat (map pack_entries (ix_packs ix))
     \<and> distinct (map fst (ix_threads ix)) \<and> (\<forall>pk \<in> set (ix_packs ix). pack_ok F pk)"

lemma index_threads_ok:
  assumes "index_threads pk ths threads = Ok threads'" and "distinct (map fst threads)"
  shows "threads' = threads @ map (\<lambda>th. (th_id th, resolve_one pk th)) ths"
    and "distinct (map fst threads')"
  using assms
  by (induction pk ths threads rule: index_threads.induct) (auto split: if_splits)

lemma load_dirs_ok:
  assumes "load_dirs F P dirs ix = Ok ix'" and "index_ok F ix"
  shows "index_ok F ix'"
  using assms
proof (induction F P dirs ix rule: load_dirs.induct)
  case (1 F P ix)
  then show ?case by simp
next
  case (2 F P dir dirs ix)
  let ?mp = "path_join dir ''pack.toml''"
  show ?case
  proof (cases "fs_exists F ?mp")
    case False
    with 2 show ?thesis by simp
  next
    case True
    with 2(3) obtain pk threads where
      pk: "parse_pack_manifest F P dir ?mp = Ok pk"
      and threads: "index_threads pk (pk_threads pk) (ix_threads ix) = Ok threads"
      and rest: "load_dirs F P dirs \<lparr>ix_packs = ix_packs ix @ [pk], ix_threads = threads\<rparr> = Ok ix'"
      by (auto simp: Let_def result_simps)
    have "index_ok F \<lparr>ix_packs = ix_packs ix @ [pk], ix_threads = threads\<rparr>"
      using 2(4) index_threads_ok [OF threads] parse_pack_manifest_ok [OF pk]
      unfolding index_ok_def by (auto simp: pack_entries_def)
    with 2(2) True pk threads rest show ?thesis by (auto simp: Let_def result_simps)
  qed
qed

lemma index_ok_empty: "index_ok F \<lparr>ix_packs = [], ix_threads = []\<rparr>"
  by (simp add: index_ok_def)

lemma load_packs_ok: "load_packs F P dir = Ok ix \<Longrightarrow> index_ok F ix"
  by (auto simp: load_packs_def Let_def result_simps index_ok_empty split: if_splits
      dest!: load_dirs_ok)

lemma resolve_thread_in_pack:
  assumes "index_ok F ix" and "resolve_thread ix tid = Some tr"
  shows "\<exists>pk \<in> set (ix_packs ix). \<exists>th \<in> set (pk_threads pk). th_id th = tid \<and> tr = resolve_one pk th"
proof -
  have "(tid, tr) \<in> set (concat (map pack_entries (ix_packs ix)))"
    using assms by (auto simp: index_ok_def resolve_thread_def dest: map_of_SomeD)
  then show ?thesis by (auto simp: pack_entries_def)
qed

section \<open>What validation accepts\<close>

fun accepts :: "arg_type \<Rightarrow> string \<Rightarrow> bool" where
  "accepts ArgString v = True"
| "accepts ArgInt v = (parse_i64 v \<noteq> None)"
| "accepts ArgBool v = is_bool_text (to_ascii_lowercase v)"

lemma check_tvar_iff:
  "check_tvar allowed (k, v) = Ok () \<longleftrightarrow> (\<exists>spec. allowed k = Some spec \<and> accepts (a_ty spec) v)"
proof (cases "allowed k")
  case (Some spec)
  then show ?thesis
    by (cases "a_ty spec") (auto simp: check_tvar_def Let_def split: option.splits)
qed (simp add: check_tvar_def)

lemma validate_loop_iff:
  "validate_loop allowed kvs = Ok () \<longleftrightarrow> (\<forall>kv \<in> set kvs. check_tvar allowed kv = Ok ())"
  by (induction kvs) (auto simp: result_simps)

lemma allowed_args_map_of: "allowed_args args k = map_of (rev (map (\<lambda>a. (a_name a, a)) args)) k"
proof -
  have "fold (\<lambda>a m. m(a_name a \<mapsto> a)) args m k =
    (case map_of (rev (map (\<lambda>a. (a_name a, a)) args)) k of None \<Rightarrow> m k | Some a \<Rightarrow> Some a)" for m
    by (induction args arbitrary: m) (auto simp: map_add_def split: option.splits)
  then show ?thesis by (auto simp: allowed_args_def split: option.splits)
qed

lemma default_tvars_insert_all:
  "default_tvars args = bm.insert_all (map (\<lambda>a. (a_name a, a_default a)) args) []"
  by (simp add: default_tvars_def bm.insert_all_def fold_map comp_def)

lemma mem_default_tvars:
  "(k, v) \<in> set (default_tvars args) \<longleftrightarrow> (\<exists>a. allowed_args args k = Some a \<and> v = a_default a)"
proof -
  have "map_of (rev (map (\<lambda>a. (a_name a, a_default a)) args)) k =
    map_option a_default (map_of (rev (map (\<lambda>a. (a_name a, a)) args)) k)"
    by (induction args) (auto simp: map_add_def split: option.splits)
  then show ?thesis
    by (auto simp: default_tvars_insert_all mem_insert_all allowed_args_map_of)
qed

lemma parse_i64_blank: "trim d = [] \<Longrightarrow> parse_i64 d = None"
proof (cases d)
  case (Cons c cs)
  assume "trim d = []"
  with Cons have "ws_byte c" using trim_eq_Nil [of d c] by simp
  then have "digit_val c = None" "c \<noteq> CHR ''-''" "c \<noteq> CHR ''+''"
    using digit_val_ws by (auto simp: ws_byte_def white_space_def)
  with Cons show ?thesis by (simp add: parse_i64_digits)
qed (simp add: parse_i64_def)

lemma accepts_valid_default:
  assumes "validate_arg_default a = Ok ()"
  shows "accepts (a_ty a) (a_default a) \<longleftrightarrow>
    (case a_ty a of ArgString \<Rightarrow> True | ArgInt \<Rightarrow> trim (a_default a) \<noteq> [] | ArgBool \<Rightarrow> a_default a \<noteq> [])"
proof (cases "a_ty a")
  case ArgInt
  with assms parse_i64_blank [of "a_default a"] show ?thesis
    by (auto simp: validate_arg_default_def split: if_splits option.splits)
next
  case ArgBool
  with assms show ?thesis
    by (auto simp: validate_arg_default_def is_bool_text_def to_ascii_lowercase_def Let_def
        split: if_splits)
qed simp


lemma try_map_fails:
  assumes "x \<in> set xs" and "f x = Inl e"
  shows "\<exists>d. try_map f xs = Inl d"
proof (cases "try_map f xs")
  case (Inr ys)
  with assms(1) have "\<exists>y. f x = Inr y"
    by (auto simp: try_map_Inr_iff list_all2_conv_all_nth in_set_conv_nth)
  with assms(2) show ?thesis by simp
qed simp

section \<open>A small packs directory\<close>

definition demo_thread :: "unit manifest_thread" where
  "demo_thread = \<lparr>mt_id = ''fail_only'', mt_title = ''Fail only'', mt_kind = ''filter'',
     mt_file = ''./awk/fail_only.awk'', mt_description = [],
     mt_arg = [\<lparr>ma_name = ''window_s'', ma_ty = ''Int'', ma_default = Some (TomlInteger 5), ma_help = []\<rparr>]\<rparr>"

definition demo_toml :: "unit toml_api" where
  "demo_toml = \<lparr>toml_from_str = (\<lambda>raw.
       Ok \<lparr>mf_pack = \<lparr>mp_id = ''hawk.core'', mp_name = ''Core'', mp_version = ''1'', mp_author = ''x'',
                     mp_description = []\<rparr>,
           mf_thread = (if raw = ''bad'' then [demo_thread, demo_thread\<lparr>mt_file := ''a/../../b''\<rparr>]
                        else [demo_thread])\<rparr>),
     toml_show = (\<lambda>_. [])\<rparr>"

definition demo_fs :: "string \<Rightarrow> fs_api" where
  "demo_fs raw = \<lparr>fs_exists = (\<lambda>p. True), fs_is_dir = (\<lambda>p. True),
     fs_read_dir = (\<lambda>p. Ok [Ok ''packs/hawk.core'']), fs_read_to_string = (\<lambda>p. Ok raw)\<rparr>"

definition demo_index :: pack_index where
  "demo_index =
     (let args = [\<lparr>a_name = ''window_s'', a_ty = ArgInt, a_default = ''5'', a_help = []\<rparr>];
          pk = \<lparr>pk_id = ''hawk.core'', pk_name = ''Core'', pk_version = ''1'', pk_author = ''x'',
                pk_description = [], pk_root_dir = ''packs/hawk.core'',
                pk_threads = [\<lparr>th_id = ''fail_only'', th_title = ''Fail only'', th_kind = ''filter'',
                  th_file = ''./awk/fail_only.awk'', th_description = [], th_args = args\<rparr>]\<rparr>
      in \<lparr>ix_packs = [pk],
          ix_threads = [(''fail_only'', resolve_one pk (hd (pk_threads pk)))]\<rparr>)"

lemma demo_loads: "load_packs (demo_fs ''good'') demo_toml ''packs'' = Ok demo_index"
  by code_simp

section \<open>Properties\<close>

text \<open>
  C13: a successful load gives an index in which thread ids are unique, the entries are those
  of the packs in loading order, and every thread of every pack resolves to its own entry.
\<close>

theorem loaded_index_complete:
  assumes "load_packs F P dir = Ok ix"
  shows "distinct (map fst (ix_threads ix))
    \<and> ix_threads ix = concat (map pack_entries (ix_packs ix))
    \<and> (\<forall>pk \<in> set (ix_packs ix). \<forall>th \<in> set (pk_threads pk).
         resolve_thread ix (th_id th) = Some (resolve_one pk th))"
proof -
  have ok: "index_ok F ix" using assms by (rule load_packs_ok)
  have "(th_id th, resolve_one pk th) \<in> set (ix_threads ix)"
    if "pk \<in> set (ix_packs ix)" "th \<in> set (pk_threads pk)" for pk th
    using ok that by (auto simp: index_ok_def pack_entries_def)
  with ok show ?thesis
    by (auto simp: index_ok_def resolve_thread_def)
qed

theorem loaded_index_complete_witness:
  "resolve_thread demo_index ''fail_only'' = Some (snd (hd (ix_threads demo_index)))
   \<and> distinct (map fst (ix_threads demo_index))"
proof -
  have "distinct (map fst (ix_threads demo_index))"
    using loaded_index_complete [OF demo_loads] by blast
  moreover have "resolve_thread demo_index ''fail_only'' = Some (snd (hd (ix_threads demo_index)))"
    by code_simp
  ultimately show ?thesis by blast
qed

text \<open>
  C8: every thread that resolves after a load has a script that existed when it was loaded,
  whose path lies below the directory of its pack however that path is resolved lexically,
  and its id and kind are not blank.
\<close>

theorem resolved_script_contained:
  assumes "load_packs F P dir = Ok ix" and "resolve_thread ix tid = Some tr"
  shows "\<exists>pk \<in> set (ix_packs ix).
      tr_pack_id tr = pk_id pk \<and> tr_thread_id tr = tid
      \<and> trim tid \<noteq> [] \<and> trim (tr_kind tr) \<noteq> [] \<and> fs_exists F (tr_script_path tr)
      \<and> (\<forall>cwd. prefix (resolve cwd (components (pk_root_dir pk)))
                       (resolve cwd (components (tr_script_path tr))))"
proof -
  have ok: "index_ok F ix" using assms(1) by (rule load_packs_ok)
  from resolve_thread_in_pack [OF this assms(2)] obtain pk th where
    pk: "pk \<in> set (ix_packs ix)" and th: "th \<in> set (pk_threads pk)" "th_id th = tid"
    and tr: "tr = resolve_one pk th"
    by blast
  from ok pk th have t: "thread_ok F (pk_root_dir pk) th"
    by (auto simp: index_ok_def pack_ok_def)
  then have "prefix (resolve cwd (components (pk_root_dir pk)))
    (resolve cwd (components (tr_script_path tr)))" for cwd
    by (simp add: tr resolve_one_def thread_ok_def join_stays_below)
  with pk th t show ?thesis
    by (intro bexI [of _ pk]) (auto simp: tr resolve_one_def thread_ok_def)
qed

theorem resolved_script_contained_witness:
  "\<exists>pk \<in> set (ix_packs demo_index). \<exists>tr. resolve_thread demo_index ''fail_only'' = Some tr
     \<and> tr_script_path tr = ''packs/hawk.core/./awk/fail_only.awk''
     \<and> prefix (resolve [] (components (pk_root_dir pk))) (resolve [] (components (tr_script_path tr)))"
proof -
  let ?tr = "snd (hd (ix_threads demo_index))"
  have r: "resolve_thread demo_index ''fail_only'' = Some ?tr"
    "tr_script_path ?tr = ''packs/hawk.core/./awk/fail_only.awk''"
    by code_simp+
  from resolved_script_contained [OF demo_loads r(1)] r show ?thesis by blast
qed

text \<open>
  A manifest that names a script by an absolute path or with a parent component anywhere
  in it is rejected as a whole.
\<close>

theorem unsafe_manifest_rejected:
  assumes "fs_read_to_string F mp = Ok raw" and "toml_from_str P raw = Ok man"
    and "t \<in> set (mf_thread man)"
    and "is_absolute (mt_file t) \<or> ''..'' \<in> set (split_on CHR ''/'' (mt_file t))"
  shows "\<exists>e. parse_pack_manifest F P dir mp = Err e"
proof -
  obtain e where "ensure_safe_rel_path (mt_file t) = Err e"
    using assms(4) unfolding ensure_safe_rel_path_def ParentDir_components
    by (cases "is_absolute (mt_file t)") simp_all
  then have "parse_thread F P dir t = Err (UnsafeFile (mt_id t) e)"
    by (simp add: parse_thread_def)
  from try_map_fails [where f = "parse_thread F P dir", OF assms(3) this]
  obtain d where "try_map (parse_thread F P dir) (mf_thread man) = Err d" ..
  with assms(1,2) show ?thesis by (simp add: parse_pack_manifest_def)
qed

theorem unsafe_manifest_rejected_witness:
  "\<exists>e. parse_pack_manifest (demo_fs ''bad'') demo_toml ''packs/hawk.core'' ''packs/hawk.core/pack.toml'' = Err e"
proof -
  let ?man = "projr (toml_from_str demo_toml ''bad'')"
  have "fs_read_to_string (demo_fs ''bad'') ''packs/hawk.core/pack.toml'' = Ok ''bad''"
    "toml_from_str demo_toml ''bad'' = Ok ?man"
    "demo_thread\<lparr>mt_file := ''a/../../b''\<rparr> \<in> set (mf_thread ?man)"
    "is_absolute (mt_file (demo_thread\<lparr>mt_file := ''a/../../b''\<rparr>))
       \<or> ''..'' \<in> set (split_on CHR ''/'' (mt_file (demo_thread\<lparr>mt_file := ''a/../../b''\<rparr>)))"
    by (simp_all add: demo_fs_def demo_toml_def)
  then show ?thesis by (rule unsafe_manifest_rejected)
qed

text \<open>
  Transform variables pass validation exactly when every one of them is declared and its
  value fits the type of the declaration (the last one where a name is declared twice).
\<close>

theorem validate_tvars_exact:
  "validate_tvars args tvars = Ok () \<longleftrightarrow>
     (\<forall>(k, v) \<in> set tvars.
        \<exists>spec. map_of (rev (map (\<lambda>a. (a_name a, a)) args)) k = Some spec \<and> accepts (a_ty spec) v)"
proof -
  have "validate_tvars args tvars = Ok () \<longleftrightarrow>
    (\<forall>(k, v) \<in> set tvars. check_tvar (allowed_args args) (k, v) = Ok ())"
    by (auto simp: validate_tvars_def validate_loop_iff)
  then show ?thesis
    by (simp only: check_tvar_iff allowed_args_map_of)
qed

theorem validate_tvars_exact_witness:
  "validate_tvars [\<lparr>a_name = ''n'', a_ty = ArgInt, a_default = [], a_help = []\<rparr>] [(''n'', ''-7'')] = Ok ()
   \<and> validate_tvars [\<lparr>a_name = ''n'', a_ty = ArgInt, a_default = [], a_help = []\<rparr>] [(''n'', ''7s'')] \<noteq> Ok ()"
proof -
  have "accepts ArgInt ''-7''" "\<not> accepts ArgInt ''7s''" by code_simp+
  then show ?thesis
    using validate_tvars_exact [of "[\<lparr>a_name = ''n'', a_ty = ArgInt, a_default = [], a_help = []\<rparr>]"]
    by simp
qed

text \<open>
  The defaults of a schema accepted by the loader pass validation exactly when no integer
  or boolean argument (the last declaration of its name) has a blank default.
\<close>

theorem defaults_accepted_iff:
  assumes "\<forall>a \<in> set args. validate_arg_default a = Ok ()"
  shows "validate_tvars args (default_tvars args) = Ok () \<longleftrightarrow>
    (\<forall>k a. allowed_args args k = Some a \<longrightarrow>
       (case a_ty a of ArgString \<Rightarrow> True | ArgInt \<Rightarrow> trim (a_default a) \<noteq> []
        | ArgBool \<Rightarrow> a_default a \<noteq> []))"
proof -
  have v: "validate_arg_default a = Ok ()" if "allowed_args args k = Some a" for k a
  proof -
    from that have "(k, a) \<in> set (rev (map (\<lambda>a. (a_name a, a)) args))"
      unfolding allowed_args_map_of by (rule map_of_SomeD)
    with assms show ?thesis by auto
  qed
  have "validate_tvars args (default_tvars args) = Ok () \<longleftrightarrow>
    (\<forall>k a. allowed_args args k = Some a \<longrightarrow> accepts (a_ty a) (a_default a))"
    unfolding validate_tvars_def validate_loop_iff Ball_def split_paired_All
      check_tvar_iff mem_default_tvars by fastforce
  moreover have "accepts (a_ty a) (a_default a) \<longleftrightarrow>
    (case a_ty a of ArgString \<Rightarrow> True | ArgInt \<Rightarrow> trim (a_default a) \<noteq> []
     | ArgBool \<Rightarrow> a_default a \<noteq> [])" if "allowed_args args k = Some a" for k a
    using v [OF that] by (rule accepts_valid_default)
  ultimately show ?thesis by simp
qed

theorem defaults_accepted_iff_witness:
  "validate_tvars [\<lparr>a_name = ''n'', a_ty = ArgInt, a_default = '' '', a_help = []\<rparr>]
     (default_tvars [\<lparr>a_name = ''n'', a_ty = ArgInt, a_default = '' '', a_help = []\<rparr>]) \<noteq> Ok ()"
proof -
  let ?a = "\<lparr>a_name = ''n'', a_ty = ArgInt, a_default = '' '', a_help = []\<rparr>"
  have "\<forall>a \<in> set [?a]. validate_arg_default a = Ok ()" by code_simp
  from defaults_accepted_iff [OF this]
  have "validate_tvars [?a] (default_tvars [?a]) = Ok () \<longleftrightarrow>
    (\<forall>k a. allowed_args [?a] k = Some a \<longrightarrow>
       (case a_ty a of ArgString \<Rightarrow> True | ArgInt \<Rightarrow> trim (a_default a) \<noteq> []
        | ArgBool \<Rightarrow> a_default a \<noteq> []))" .
  moreover have "allowed_args [?a] ''n'' = Some ?a" by (simp add: allowed_args_def)
  moreover have "trim '' '' = []" by code_simp
  ultimately show ?thesis by (auto dest: spec [of _ "''n''"])
qed

end
