(* ===== verification/Hawk_Awk.thy ===== *)
theory Hawk_Awk
  imports Frame_Emit Hawk_Io Hawk_Packs
begin

text \<open>
  The AWK bridge of the mirror (\<open>crates/hawk/src/awk.rs\<close>): starting the process and the
  three threads that feed it frames, read frames back and wait for its end. The process is
  outside the repository: the answers to writes, what is read from it and its exit are data
  of the model.
\<close>

section \<open>Starting the process\<close>

datatype awk_error = ScriptNotFound string | AwkSpawn string | AwkNoStdin | AwkNoStdout

datatype spawn_answer = SpawnFails string | WithoutStdin | WithoutStdout | Spawned

definition runner_args :: "string \<Rightarrow> (string, string) btree_map \<Rightarrow> string list" where
  "runner_args script_path tvars =
     concat (map (\<lambda>(k, v). [''-v'', k @ ''='' @ v]) tvars) @ [''-f'', script_path]"

text \<open>The arguments the process runs with.\<close>

definition awk_spawn ::
  "fs_api \<Rightarrow> (string list \<Rightarrow> spawn_answer) \<Rightarrow> string \<Rightarrow> (string, string) btree_map
    \<Rightarrow> awk_error + string list" where
  "awk_spawn F start script_path tvars =
     (if \<not> fs_exists F script_path then Err (ScriptNotFound script_path)
      else let args = runner_args script_path tvars in
        case start args of
          SpawnFails e \<Rightarrow> Err (AwkSpawn e)
        | WithoutStdin \<Rightarrow> Err AwkNoStdin
        | WithoutStdout \<Rightarrow> Err AwkNoStdout
        | Spawned \<Rightarrow> Ok args)"

section \<open>The threads\<close>

text \<open>How the three writes for a frame end; a failing \<open>write_all\<close> has written some bytes.\<close>

datatype write_answer = WriteOk | LineFails nat | NewlineFails | FlushFails

text \<open>The text written to the process, piece by piece, and the errors sent.\<close>

fun bridge_writer ::
  "'t time_api \<Rightarrow> (('t hawk_frame \<times> 't) \<times> write_answer) list \<Rightarrow> string list \<times> string list" where
  "bridge_writer T [] = ([], [])"
| "bridge_writer T (((frame, now), WriteOk) # rest) =
     (let (ls, es) = bridge_writer T rest in ((to_tsv_line T frame now @ [LF]) # ls, es))"
| "bridge_writer T (((frame, now), LineFails n) # rest) =
     ([take n (to_tsv_line T frame now)], [''awk stdin write failed''])"
| "bridge_writer T (((frame, now), NewlineFails) # rest) =
     ([to_tsv_line T frame now], [''awk stdin newline failed''])"
| "bridge_writer T (((frame, now), FlushFails) # rest) =
     ([to_tsv_line T frame now @ [LF]], [''awk stdin flush failed''])"

datatype 't bridge_msg = OutFrame "'t hawk_frame" | BridgeErr string

fun bridge_reader :: "'t time_api \<Rightarrow> read_result list \<Rightarrow> 't bridge_msg list" where
  "bridge_reader T [] = []"
| "bridge_reader T (ReadOk line # rs) =
     (case parse_tsv_line T line of
        Inr (Some frame) \<Rightarrow> OutFrame frame # bridge_reader T rs
      | Inr None \<Rightarrow> bridge_reader T rs
      | Inl _ \<Rightarrow> BridgeErr ''awk emitted invalid TSV line'' # bridge_reader T rs)"
| "bridge_reader T (ReadErr e # rs) = [BridgeErr ''awk stdout read failed'']"

text \<open>The exit status comes with its success flag and its text.\<close>

definition bridge_waiter :: "string + bool \<times> string \<Rightarrow> string list" where
  "bridge_waiter r =
     (case r of
        Inr (success, status) \<Rightarrow> if \<not> success then [''awk exited with status '' @ status] else []
      | Inl e \<Rightarrow> [''awk wait failed: '' @ e])"

definition bridge_frames :: "'t bridge_msg list \<Rightarrow> 't hawk_frame list" where
  "bridge_frames ms = List.map_filter (\<lambda>m. case m of OutFrame f \<Rightarrow> Some f | BridgeErr _ \<Rightarrow> None) ms"

definition bridge_errs :: "'t bridge_msg list \<Rightarrow> string list" where
  "bridge_errs ms = List.map_filter (\<lambda>m. case m of OutFrame _ \<Rightarrow> None | BridgeErr e \<Rightarrow> Some e) ms"

text \<open>
  \<open>start_bridge\<close>: the frames sent back and the errors of the writer, of the reader and of the
  thread that waits, given what the process prints for the text it gets and how it ends.
\<close>

definition start_bridge ::
  "'t time_api \<Rightarrow> (('t hawk_frame \<times> 't) \<times> write_answer) list \<Rightarrow> (string list \<Rightarrow> read_result list)
    \<Rightarrow> string + bool \<times> string \<Rightarrow> 't hawk_frame list \<times> string list list" where
  "start_bridge T in_rx awk child =
     (let (written, write_errs) = bridge_writer T in_rx;
          out = bridge_reader T (awk written)
      in (bridge_frames out, [write_errs, bridge_errs out, bridge_waiter child]))"

section \<open>The reader as an event loop\<close>

fun bridge_msgs :: "'t time_api \<Rightarrow> read_result \<Rightarrow> 't bridge_msg list" where
  "bridge_msgs T (ReadOk line) =
     (case parse_tsv_line T line of
        Inr (Some frame) \<Rightarrow> [OutFrame frame]
      | Inr None \<Rightarrow> []
      | Inl _ \<Rightarrow> [BridgeErr ''awk emitted invalid TSV line''])"
| "bridge_msgs T (ReadErr e) = [BridgeErr ''awk stdout read failed'']"

fun is_read_err :: "read_result \<Rightarrow> bool" where
  "is_read_err (ReadOk l) = False"
| "is_read_err (ReadErr e) = True"

interpretation br: event_loop "bridge_msgs T" is_read_err "bridge_reader T" for T
proof
  fix e es
  show "bridge_reader T (e # es) = bridge_msgs T e @ (if is_read_err e then [] else bridge_reader T es)"
    by (cases e) (auto split: sum.splits option.splits)
qed simp

lemma bridge_writer_ok:
  "bridge_writer T (map (\<lambda>fn. (fn, WriteOk)) fs) = (map (\<lambda>fn. printed T fn @ [LF]) fs, [])"
  by (induction fs) (auto simp: printed_def)

definition stamped :: "'t hawk_frame \<times> 't \<Rightarrow> 't hawk_frame" where
  "stamped fn = (fst fn)\<lparr>hf_ts := Some (stamp (fst fn) (snd fn))\<rparr>"

lemma bridge_reader_printed:
  assumes "rfc3339_ok T"
    and "\<forall>fn \<in> set fs. clean_frame (fst fn) \<and> no_ghost_flag (hf_kv (fst fn))
           \<and> format_rfc3339 T (stamp (fst fn) (snd fn)) \<noteq> None"
  shows "bridge_reader T (map (ReadOk \<circ> printed T) fs) = map (OutFrame \<circ> stamped) fs"
  using assms(2)
proof (induction fs)
  case (Cons fn fs)
  then obtain s where "clean_frame (fst fn)" "no_ghost_flag (hf_kv (fst fn))"
    "format_rfc3339 T (stamp (fst fn) (snd fn)) = Some s"
    by auto
  from parse_to_tsv_line(1) [OF assms(1) this] have "parse_tsv_line T (printed T fn) = Ok (Some (stamped fn))"
    by (simp add: printed_def stamped_def)
  with Cons show ?case by simp
qed simp

section \<open>Properties\<close>

text \<open>
  Through a transform that copies its input, the bridge is the identity on the frames of
  the readers, apart from filling in missing timestamps: what is written to the process,
  split into lines and parsed, gives the same frames in the same order and no error.
\<close>

theorem bridge_copy_identity:
  assumes "rfc3339_ok T"
    and "\<forall>fn \<in> set fs. \<exists>line. parse_tsv_line T line = Ok (Some (fst fn)) \<and> one_line line"
    and "\<forall>fn \<in> set fs. no_ghost_flag (hf_kv (fst fn)) \<and> format_rfc3339 T (stamp (fst fn) (snd fn)) \<noteq> None"
  shows "bridge_reader T (map ReadOk (lines (concat (fst (bridge_writer T (map (\<lambda>fn. (fn, WriteOk)) fs)))))) =
      map (OutFrame \<circ> stamped) fs
    \<and> snd (bridge_writer T (map (\<lambda>fn. (fn, WriteOk)) fs)) = []"
proof -
  have "\<forall>fn \<in> set fs. clean_frame (fst fn) \<and> lf_free (fst fn)"
    using assms(2) clean_parsed_frame lf_free_parsed by blast
  from lines_printed [OF assms(1) this] bridge_reader_printed [OF assms(1), of fs] assms(3) this
  show ?thesis by (simp add: bridge_writer_ok)
qed

theorem bridge_copy_identity_witness:
  "bridge_reader dec_time (map ReadOk (lines (concat (fst (bridge_writer dec_time [((sample_frame, 42), WriteOk)]))))) =
     [OutFrame (sample_frame\<lparr>hf_ts := Some 42\<rparr>)]"
proof -
  let ?fs = "[(sample_frame, 42)]"
  have o: "one_line sample_line" "no_ghost_flag (hf_kv sample_frame)"
    "format_rfc3339 dec_time (stamp sample_frame 42) \<noteq> None" "stamp sample_frame 42 = 42"
    by code_simp+
  have "\<forall>fn \<in> set ?fs. \<exists>line. parse_tsv_line dec_time line = Ok (Some (fst fn)) \<and> one_line line"
    using sample_line_parses o(1) by auto
  moreover have "\<forall>fn \<in> set ?fs. no_ghost_flag (hf_kv (fst fn))
      \<and> format_rfc3339 dec_time (stamp (fst fn) (snd fn)) \<noteq> None"
    using o(2,3) by simp
  ultimately show ?thesis
    using bridge_copy_identity [OF dec_time_ok, of ?fs] o(4) by (simp add: stamped_def)
qed

end
