(* ===== verification/Hawk_Doctor.thy ===== *)
theory Hawk_Doctor
  imports Hawk_Packs Hawkframe
begin

text \<open>
  The pack doctor (\<open>crates/hawk/src/doctor.rs\<close>): style checks, the declared-argument
  scan, the AWK security scan, the smoke test and the walk over the packs directory that
  collects errors and warnings. Messages are values; the file system, the TOML reader and a
  run of \<open>awk\<close> are parameters.
\<close>

section \<open>Types\<close>

datatype security_mode = SecStrict | SecWarn | SecOff

record doctor_options =
  opt_smoke :: bool
  opt_security :: security_mode

datatype style_error = StyleRead string string | MissingHeader | MissingTerminator

datatype scan_error = ScanRead string string

datatype schema_issue = SchemaRead string string | NeverReferenced string

datatype smoke_error =
    SmokeSpawn string | SmokeStdinMissing | SmokeStdoutMissing | SmokeWrite string
  | SmokeNewline string | SmokeRead string | SmokeWait string | SmokeNonzero
  | SmokeInvalidLine string

datatype doctor_msg =
    PacksDirMissing string
  | CannotReadPacksDir string string
  | PackParseFailed string pack_error
  | ZeroThreads string
  | IdCollision string string string
  | ThreadMissingFile string string
  | StyleIssue string style_error
  | SchemaIssue string schema_issue
  | SecurityIssue string string
  | SecurityScanFailed string scan_error
  | SmokeIssue string smoke_error

record doctor_report =
  errors :: "doctor_msg list"
  warnings :: "doctor_msg list"

definition report_new :: doctor_report where
  "report_new = \<lparr>errors = [], warnings = []\<rparr>"

definition report_ok :: "doctor_report \<Rightarrow> bool" where
  "report_ok rep \<longleftrightarrow> errors rep = []"

definition push_error :: "doctor_msg \<Rightarrow> doctor_report \<Rightarrow> doctor_report" where
  "push_error m rep = rep\<lparr>errors := errors rep @ [m]\<rparr>"

definition push_warning :: "doctor_msg \<Rightarrow> doctor_report \<Rightarrow> doctor_report" where
  "push_warning m rep = rep\<lparr>warnings := warnings rep @ [m]\<rparr>"

datatype finding_severity = FError | FWarning

record security_finding =
  f_severity :: finding_severity
  f_message :: string

section \<open>Style and schema checks\<close>

text \<open>The header mark and the terminator in UTF-8.\<close>

definition header_mark :: string where
  "header_mark = [CHR 0xE2, CHR 0x96, CHR 0x9B, CHR 0xE2, CHR 0x96, CHR 0x9E] @ ''//''"

definition terminator :: string where
  "terminator = ''# :: '' @ [CHR 0xE2, CHR 0x88, CHR 0x8E]"

fun last_non_empty :: "string \<Rightarrow> string list \<Rightarrow> string" where
  "last_non_empty l [] = l"
| "last_non_empty l (line # ls) =
     (let t = trim line in last_non_empty (if t \<noteq> [] then t else l) ls)"

definition check_header_and_terminator :: "fs_api \<Rightarrow> string \<Rightarrow> style_error + unit" where
  "check_header_and_terminator F path =
     and_then (map_err (StyleRead path) (fs_read_to_string F path)) (\<lambda>raw.
       let header_ok = (\<exists>line \<in> set (take 20 (lines raw)). contains header_mark line) in
       if \<not> header_ok then Err MissingHeader
       else if last_non_empty [] (lines raw) \<noteq> terminator then Err MissingTerminator
       else Ok ())"

definition is_ident_char :: "char \<Rightarrow> bool" where
  "is_ident_char c =
     (let n = of_char c :: int in
      (48 \<le> n \<and> n \<le> 57) \<or> (65 \<le> n \<and> n \<le> 90) \<or> (97 \<le> n \<and> n \<le> 122) \<or> c = CHR ''_'')"

text \<open>The inner loop of \<open>contains_word\<close>, from byte \<open>i\<close> on.\<close>

function word_from :: "string \<Rightarrow> string \<Rightarrow> nat \<Rightarrow> bool" where
  "word_from n bytes i =
     (if i + length n \<le> length bytes then
        if take (length n) (drop i bytes) = n
           \<and> (i = 0 \<or> \<not> is_ident_char (bytes ! (i - 1)))
           \<and> (i + length n = length bytes \<or> \<not> is_ident_char (bytes ! (i + length n)))
        then True
        else word_from n bytes (i + 1)
      else False)"
  by pat_completeness auto
termination
  by (relation "measure (\<lambda>(n, bytes, i). Suc (length bytes) - i)") auto

declare word_from.simps [simp del]

fun word_in_lines :: "string \<Rightarrow> string list \<Rightarrow> bool" where
  "word_in_lines n [] = False"
| "word_in_lines n (line # ls) =
     (let t = trim line in
      if prefix ''#'' t then word_in_lines n ls
      else if length t < length n then word_in_lines n ls
      else if word_from n t 0 then True
      else word_in_lines n ls)"

definition contains_word :: "string \<Rightarrow> string \<Rightarrow> bool" where
  "contains_word hay needle =
     (if needle = [] then False else word_in_lines needle (lines hay))"

definition scan_declared_arg_usage :: "fs_api \<Rightarrow> string \<Rightarrow> arg_spec list \<Rightarrow> schema_issue list" where
  "scan_declared_arg_usage F path args =
     (if args = [] then []
      else (case fs_read_to_string F path of
              Inl e \<Rightarrow> [SchemaRead path e]
            | Inr raw \<Rightarrow>
                map (\<lambda>a. NeverReferenced (a_name a))
                  (filter (\<lambda>a. \<not> contains_word raw (a_name a)) args)))"

section \<open>The security scan\<close>

definition msg_system :: string where
  "msg_system = ''command execution via system() is not allowed''"
definition msg_pipe_getline :: string where
  "msg_pipe_getline = ''command pipe into getline is not allowed''"
definition msg_pipe_output :: string where
  "msg_pipe_output = ''piping output to a command is not allowed''"
definition msg_redirect :: string where
  "msg_redirect = ''file redirection is not allowed (only stderr debug is allowed)''"
definition msg_getline_file :: string where
  "msg_getline_file =
     ''getline file input detected, treat as high risk unless explicitly allowed''"

fun mode_severity :: "security_mode \<Rightarrow> finding_severity" where
  "mode_severity SecStrict = FError"
| "mode_severity SecWarn = FWarning"
| "mode_severity SecOff = FWarning"

definition prints :: "string \<Rightarrow> bool" where
  "prints t \<longleftrightarrow> contains ''print'' t \<or> contains ''printf'' t"

text \<open>One line of the script: the findings so far and the set of messages seen.\<close>

definition scan_line ::
  "security_mode \<Rightarrow> string \<Rightarrow> security_finding list \<times> (string, unit) btree_map
    \<Rightarrow> security_finding list \<times> (string, unit) btree_map" where
  "scan_line mode line st =
     (let t = trim line in
      if t = [] \<or> prefix ''#'' t then st
      else
        let (findings, seen) = st;
            seen = (if contains ''system('' t then bm_insert msg_system () seen else seen);
            seen = (if contains ''| getline'' t \<or> contains ''|getline'' t
                    then bm_insert msg_pipe_getline () seen else seen);
            seen = (if prints t \<and> (contains (CHR ''|'' # [DQ]) t \<or> contains (''| '' @ [DQ]) t)
                    then bm_insert msg_pipe_output () seen else seen);
            seen = (if prints t \<and> (contains ''>>'' t \<or> CHR ''>'' \<in> set t)
                       \<and> \<not> (contains ''/dev/stderr'' t \<or> contains ''/dev/fd/2'' t)
                    then bm_insert msg_redirect () seen else seen);
            findings = (if contains ''getline <'' t \<or> contains ''getline<'' t
                        then findings @ [\<lparr>f_severity = mode_severity mode, f_message = msg_getline_file\<rparr>]
                        else findings)
        in (findings, seen))"

definition security_scan_awk ::
  "fs_api \<Rightarrow> string \<Rightarrow> security_mode \<Rightarrow> scan_error + security_finding list" where
  "security_scan_awk F path mode =
     (if mode = SecOff then Ok []
      else
        and_then (map_err (ScanRead path) (fs_read_to_string F path)) (\<lambda>raw.
          let (findings, seen) = fold (scan_line mode) (lines raw) ([], [])
          in Ok (findings @ map (\<lambda>(msg, _). \<lparr>f_severity = FError, f_message = msg\<rparr>) seen)))"

section \<open>The smoke test\<close>

text \<open>What a run of \<open>awk\<close> with the given arguments and standard input comes to.\<close>

datatype awk_outcome =
    AwkSpawnError string | AwkStdinMissing | AwkStdoutMissing | AwkWriteError string
  | AwkNewlineError string | AwkReadError string | AwkWaitError string
  | AwkExited bool string

type_synonym awk_api = "string list \<Rightarrow> string \<Rightarrow> awk_outcome"

definition smoke_sample :: "string list" where
  "smoke_sample =
     [join [TAB] [''2026-02-16T00:00:00Z'', ''HEALTH'', ''systemd'', ''spine.hawkd'', ''ok'', ''active'',
                  ''unit=hawkd.service''],
      join [TAB] [''2026-02-16T00:00:01Z'', ''HEALTH'', ''grpc'', ''proto.alpha'', ''fail'', ''NOT_SERVING'',
                  ''endpoint=svc:443;service=;error=x''],
      join [TAB] [''2026-02-16T00:00:02Z'', ''RECEIPT_EVENT'', ''hawkd'', ''ingest'', ''warn'',
                  ''ingest parse error'', ''error=bad;raw=clip'']]"

definition awk_args :: "string \<Rightarrow> (string, string) btree_map \<Rightarrow> string list" where
  "awk_args script_path tvars =
     concat (map (\<lambda>(k, v). [''-v'', k @ ''='' @ v]) tvars) @ [''-f'', script_path]"

fun smoke_lines :: "'t time_api \<Rightarrow> string list \<Rightarrow> smoke_error + unit" where
  "smoke_lines T [] = Ok ()"
| "smoke_lines T (line # ls) =
     (let t = trim line in
      if t = [] \<or> prefix ''#'' t then smoke_lines T ls
      else (case parse_tsv_line T t of
              Inr _ \<Rightarrow> smoke_lines T ls
            | Inl _ \<Rightarrow> Err (SmokeInvalidLine t)))"

definition smoke_test_awk ::
  "'t time_api \<Rightarrow> awk_api \<Rightarrow> string \<Rightarrow> (string, string) btree_map \<Rightarrow> smoke_error + unit" where
  "smoke_test_awk T awk script_path tvars =
     (let input = concat (map (\<lambda>line. line @ [LF]) smoke_sample) in
      case awk (awk_args script_path tvars) input of
        AwkSpawnError e \<Rightarrow> Err (SmokeSpawn e)
      | AwkStdinMissing \<Rightarrow> Err SmokeStdinMissing
      | AwkStdoutMissing \<Rightarrow> Err SmokeStdoutMissing
      | AwkWriteError e \<Rightarrow> Err (SmokeWrite e)
      | AwkNewlineError e \<Rightarrow> Err (SmokeNewline e)
      | AwkReadError e \<Rightarrow> Err (SmokeRead e)
      | AwkWaitError e \<Rightarrow> Err (SmokeWait e)
      | AwkExited success out \<Rightarrow>
          if \<not> success then Err SmokeNonzero else smoke_lines T (lines out))"

section \<open>The walk\<close>

type_synonym seen_ids = "(string, string) btree_map"

definition report_finding :: "string \<Rightarrow> security_finding \<Rightarrow> doctor_report \<Rightarrow> doctor_report" where
  "report_finding tid f rep =
     (case f_severity f of
        FError \<Rightarrow> push_error (SecurityIssue tid (f_message f)) rep
      | FWarning \<Rightarrow> push_warning (SecurityIssue tid (f_message f)) rep)"

definition report_scan :: "string \<Rightarrow> scan_error + security_finding list \<Rightarrow> doctor_report \<Rightarrow> doctor_report" where
  "report_scan tid r rep =
     (case r of
        Inr findings \<Rightarrow> fold (report_finding tid) findings rep
      | Inl e \<Rightarrow> push_error (SecurityScanFailed tid e) rep)"

definition note_id :: "string \<Rightarrow> string \<Rightarrow> doctor_report \<times> seen_ids \<Rightarrow> doctor_report \<times> seen_ids" where
  "note_id manifest tid st =
     (case st of (rep, seen) \<Rightarrow>
        (case bm_get seen tid of
           Some prev \<Rightarrow> (push_error (IdCollision tid prev manifest) rep, seen)
         | None \<Rightarrow> (rep, bm_insert tid manifest seen)))"

definition doctor_thread ::
  "'t time_api \<Rightarrow> fs_api \<Rightarrow> awk_api \<Rightarrow> doctor_options \<Rightarrow> string \<Rightarrow> pack \<Rightarrow> thread
    \<Rightarrow> doctor_report \<times> seen_ids \<Rightarrow> doctor_report \<times> seen_ids" where
  "doctor_thread T F awk opts manifest pk th st =
     (let (rep, seen) = note_id manifest (th_id th) st;
          script_path = path_join (pk_root_dir pk) (th_file th)
      in if \<not> fs_exists F script_path
         then (push_error (ThreadMissingFile (th_id th) script_path) rep, seen)
         else
           let rep = (case check_header_and_terminator F script_path of
                        Inl e \<Rightarrow> push_warning (StyleIssue (th_id th) e) rep
                      | Inr _ \<Rightarrow> rep);
               rep = fold (\<lambda>w. push_warning (SchemaIssue (th_id th) w))
                       (scan_declared_arg_usage F script_path (th_args th)) rep;
               rep = report_scan (th_id th) (security_scan_awk F script_path (opt_security opts)) rep;
               rep = (if opt_smoke opts
                      then (case smoke_test_awk T awk script_path (default_tvars (th_args th)) of
                              Inl e \<Rightarrow> push_error (SmokeIssue (th_id th) e) rep
                            | Inr _ \<Rightarrow> rep)
                      else rep)
           in (rep, seen))"

fun doctor_dirs ::
  "'t time_api \<Rightarrow> fs_api \<Rightarrow> 'v toml_api \<Rightarrow> awk_api \<Rightarrow> doctor_options \<Rightarrow> string list
    \<Rightarrow> doctor_report \<times> seen_ids \<Rightarrow> doctor_report \<times> seen_ids" where
  "doctor_dirs T F P awk opts [] st = st"
| "doctor_dirs T F P awk opts (pack_dir # dirs) st =
     (let manifest = path_join pack_dir ''pack.toml'' in
      if \<not> fs_exists F manifest then doctor_dirs T F P awk opts dirs st
      else (case parse_pack_manifest F P pack_dir manifest of
              Inl e \<Rightarrow>
                doctor_dirs T F P awk opts dirs (push_error (PackParseFailed manifest e) (fst st), snd st)
            | Inr pk \<Rightarrow>
                let st = (if pk_threads pk = [] then (push_warning (ZeroThreads manifest) (fst st), snd st)
                          else st);
                    st = fold (doctor_thread T F awk opts manifest pk) (pk_threads pk) st
                in doctor_dirs T F P awk opts dirs st))"

definition run_pack_doctor ::
  "'t time_api \<Rightarrow> fs_api \<Rightarrow> 'v toml_api \<Rightarrow> awk_api \<Rightarrow> string \<Rightarrow> doctor_options \<Rightarrow> doctor_report" where
  "run_pack_doctor T F P awk packs_dir opts =
     (if \<not> fs_exists F packs_dir then push_warning (PacksDirMissing packs_dir) report_new
      else (case fs_read_dir F packs_dir of
              Inl e \<Rightarrow> push_error (CannotReadPacksDir packs_dir e) report_new
            | Inr rd \<Rightarrow>
                let entries = filter (fs_is_dir F)
                      (List.map_filter (\<lambda>r. case r of Inl _ \<Rightarrow> None | Inr p \<Rightarrow> Some p) rd)
                in fst (doctor_dirs T F P awk opts (sort_by path_cmp entries) (report_new, []))))"

section \<open>Words\<close>

text \<open>An occurrence of \<open>n\<close> in \<open>t\<close> with no identifier character on either side.\<close>

definition occurs_as_word :: "string \<Rightarrow> string \<Rightarrow> bool" where
  "occurs_as_word n t \<longleftrightarrow>
     (\<exists>u v. t = u @ n @ v \<and> (u = [] \<or> \<not> is_ident_char (last u))
        \<and> (v = [] \<or> \<not> is_ident_char (hd v)))"

definition word_here :: "string \<Rightarrow> string \<Rightarrow> nat \<Rightarrow> bool" where
  "word_here n t i \<longleftrightarrow>
     i + length n \<le> length t \<and> take (length n) (drop i t) = n
     \<and> (i = 0 \<or> \<not> is_ident_char (t ! (i - 1)))
     \<and> (i + length n = length t \<or> \<not> is_ident_char (t ! (i + length n)))"

lemma word_from_step:
  "word_from n t i \<longleftrightarrow> i + length n \<le> length t \<and> (word_here n t i \<or> word_from n t (i + 1))"
  by (subst word_from.simps) (auto simp: word_here_def)

lemma ex_ge_step: "(\<exists>j \<ge> i. P j) \<longleftrightarrow> P i \<or> (\<exists>j \<ge> i + 1. P (j :: nat))"
  by (metis Suc_eq_plus1 Suc_leD le_antisym not_less_eq_eq order_refl)

lemma word_from_iff: "word_from n t i \<longleftrightarrow> (\<exists>j \<ge> i. word_here n t j)"
proof (induction "Suc (length t) - i" arbitrary: i rule: less_induct)
  case less
  show ?case
  proof (cases "i + length n \<le> length t")
    case True
    then have "word_from n t (i + 1) \<longleftrightarrow> (\<exists>j \<ge> i + 1. word_here n t j)"
      by (intro less) auto
    with True show ?thesis
      using word_from_step [of n t i] ex_ge_step [of i "word_here n t"] by simp
  next
    case False
    then show ?thesis
      by (subst word_from_step) (auto simp: word_here_def)
  qed
qed

lemma word_here_split:
  "word_here n (u @ w) (length u) \<longleftrightarrow>
     (\<exists>v. w = n @ v \<and> (u = [] \<or> \<not> is_ident_char (last u)) \<and> (v = [] \<or> \<not> is_ident_char (hd v)))"
proof (cases "prefix n w")
  case True
  then obtain v where w: "w = n @ v" by (auto simp: prefix_def)
  have "u \<noteq> [] \<Longrightarrow> (u @ w) ! (length u - 1) = last u"
    by (simp add: nth_append last_conv_nth)
  moreover have "v \<noteq> [] \<Longrightarrow> (u @ w) ! (length u + length n) = hd v"
    by (simp add: w nth_append hd_conv_nth)
  ultimately show ?thesis
    by (auto simp: word_here_def w)
next
  case False
  then have "take (length n) w \<noteq> n"
    by (metis take_is_prefix)
  with False show ?thesis
    by (auto simp: word_here_def prefix_def)
qed

lemma word_from_0: "word_from n t 0 \<longleftrightarrow> occurs_as_word n t"
proof
  assume "word_from n t 0"
  then obtain j where j: "word_here n t j" by (auto simp: word_from_iff)
  then have "length (take j t) = j" by (simp add: word_here_def)
  with j word_here_split [of n "take j t" "drop j t"]
  obtain v where "drop j t = n @ v" "take j t = [] \<or> \<not> is_ident_char (last (take j t))"
    "v = [] \<or> \<not> is_ident_char (hd v)"
    by auto
  then show "occurs_as_word n t"
    unfolding occurs_as_word_def
    by (intro exI [of _ "take j t"] exI [of _ v] conjI) (simp_all flip: \<open>drop j t = n @ v\<close>)
next
  assume "occurs_as_word n t"
  then obtain u v where t: "t = u @ n @ v" and "u = [] \<or> \<not> is_ident_char (last u)"
    "v = [] \<or> \<not> is_ident_char (hd v)"
    by (auto simp: occurs_as_word_def)
  then have "word_here n t (length u)"
    unfolding t by (subst word_here_split) auto
  then show "word_from n t 0" by (auto simp: word_from_iff)
qed

lemma occurs_as_word_length: "occurs_as_word n t \<Longrightarrow> length n \<le> length t"
  by (auto simp: occurs_as_word_def)

lemma word_in_lines_iff:
  "word_in_lines n ls \<longleftrightarrow>
     (\<exists>line \<in> set ls. \<not> prefix ''#'' (trim line) \<and> occurs_as_word n (trim line))"
proof (induction ls)
  case Nil
  then show ?case by simp
next
  case (Cons line ls)
  have "length (trim line) < length n \<Longrightarrow> \<not> occurs_as_word n (trim line)"
    using occurs_as_word_length [of n "trim line"] by linarith
  with Cons show ?case
    by (simp add: Let_def word_from_0)
qed

text \<open>
  The byte loop of \<open>contains_word\<close> decides whether the word occurs, delimited by
  non-identifier bytes or the ends of the line, in a line that is not a comment.
\<close>

theorem contains_word_exact:
  "contains_word hay needle \<longleftrightarrow>
     needle \<noteq> [] \<and> (\<exists>line \<in> set (lines hay).
       \<not> prefix ''#'' (trim line) \<and> occurs_as_word needle (trim line))"
  by (simp add: contains_word_def word_in_lines_iff)

section \<open>What the scan reports\<close>

definition flagged :: "security_mode \<Rightarrow> string \<Rightarrow> bool" where
  "flagged mode t \<longleftrightarrow>
     contains ''system('' t
     \<or> contains ''| getline'' t \<or> contains ''|getline'' t
     \<or> prints t \<and> (contains (CHR ''|'' # [DQ]) t \<or> contains (''| '' @ [DQ]) t)
     \<or> prints t \<and> (contains ''>>'' t \<or> CHR ''>'' \<in> set t)
         \<and> \<not> (contains ''/dev/stderr'' t \<or> contains ''/dev/fd/2'' t)
     \<or> mode = SecStrict \<and> (contains ''getline <'' t \<or> contains ''getline<'' t)"

definition active_lines :: "string \<Rightarrow> string list" where
  "active_lines raw = filter (\<lambda>t. t \<noteq> [] \<and> \<not> prefix ''#'' t) (map trim (lines raw))"

definition no_error :: "security_finding list \<Rightarrow> bool" where
  "no_error fs \<longleftrightarrow> list_all (\<lambda>f. f_severity f = FWarning) fs"

definition quiet :: "security_finding list \<times> (string, unit) btree_map \<Rightarrow> bool" where
  "quiet st \<longleftrightarrow> no_error (fst st) \<and> snd st = []"

lemma bm_insert_not_Nil [simp]: "bm_insert k v m \<noteq> []"
  by (cases m) (auto split: if_splits)

lemma mode_severity_iff: "mode_severity mode = FWarning \<longleftrightarrow> mode \<noteq> SecStrict"
  by (cases mode) auto

lemma quiet_scan_line:
  "quiet (scan_line mode line st) \<longleftrightarrow>
     quiet st \<and> (trim line = [] \<or> prefix ''#'' (trim line) \<or> \<not> flagged mode (trim line))"
proof (cases "trim line = [] \<or> prefix ''#'' (trim line)")
  case True
  then show ?thesis by (auto simp: scan_line_def Let_def)
next
  case False
  obtain fs seen where st: "st = (fs, seen)" by force
  show ?thesis
    using False
    by (simp add: scan_line_def Let_def st quiet_def no_error_def flagged_def mode_severity_iff
        del: contains.simps) argo
qed

lemma quiet_fold:
  "quiet (fold (scan_line mode) ls st) \<longleftrightarrow>
     quiet st \<and> list_all (\<lambda>t. t = [] \<or> prefix ''#'' t \<or> \<not> flagged mode t) (map trim ls)"
  by (induction ls arbitrary: st) (auto simp: quiet_scan_line)

definition scan_passes :: "fs_api \<Rightarrow> string \<Rightarrow> security_mode \<Rightarrow> bool" where
  "scan_passes F path mode \<longleftrightarrow>
     (case security_scan_awk F path mode of Inl _ \<Rightarrow> False | Inr fs \<Rightarrow> no_error fs)"

text \<open>
  C32: outside mode \<open>off\<close> the security scan finds no error exactly when the script can be
  read and none of its lines, comments apart, has a forbidden construct; a read of a file by
  \<open>getline\<close> counts as forbidden in strict mode only. In mode \<open>off\<close> it always passes.
\<close>

theorem scan_exact:
  "scan_passes F path mode =
     (case mode of
        SecOff \<Rightarrow> True
      | _ \<Rightarrow> (case fs_read_to_string F path of
                Inl _ \<Rightarrow> False
              | Inr raw \<Rightarrow> filter (flagged mode) (active_lines raw) = []))"
proof (cases "mode = SecOff")
  case True
  then show ?thesis by (simp add: scan_passes_def security_scan_awk_def no_error_def)
next
  case False
  show ?thesis
  proof (cases "fs_read_to_string F path")
    case (Inl e)
    with False show ?thesis
      by (cases mode) (simp_all add: scan_passes_def security_scan_awk_def)
  next
    case (Inr raw)
    obtain fs seen where st: "fold (scan_line mode) (lines raw) ([], []) = (fs, seen)" by force
    have "scan_passes F path mode \<longleftrightarrow> quiet (fs, seen)"
      using False Inr
      by (cases seen) (auto simp: scan_passes_def security_scan_awk_def st quiet_def no_error_def)
    also have "\<dots> \<longleftrightarrow> filter (flagged mode) (active_lines raw) = []"
      using quiet_fold [of mode "lines raw" "([], [])"]
      by (auto simp: st quiet_def no_error_def active_lines_def list_all_iff filter_empty_conv)
    finally show ?thesis using False Inr by (cases mode) simp_all
  qed
qed

section \<open>What a clean report certifies\<close>

definition certified ::
  "'t time_api \<Rightarrow> fs_api \<Rightarrow> awk_api \<Rightarrow> doctor_options \<Rightarrow> thread_resolved \<Rightarrow> bool" where
  "certified T F awk opts tr \<longleftrightarrow>
     fs_exists F (tr_script_path tr)
     \<and> scan_passes F (tr_script_path tr) (opt_security opts)
     \<and> (opt_smoke opts \<longrightarrow>
          smoke_test_awk T awk (tr_script_path tr) (default_tvars (tr_args tr)) = Ok ())"

lemma errors_push [simp]:
  "errors (push_error m rep) \<noteq> []" "errors (push_warning m rep) = errors rep"
  by (simp_all add: push_error_def push_warning_def)

lemma errors_push_warnings [simp]: "errors (fold (\<lambda>w. push_warning (f w)) ws rep) = errors rep"
  by (induction ws arbitrary: rep) auto

lemma errors_report_findings:
  "errors (fold (report_finding tid) fs rep) = [] \<longleftrightarrow> errors rep = [] \<and> no_error fs"
proof (induction fs arbitrary: rep)
  case (Cons f fs)
  then show ?case
    by (cases "f_severity f") (auto simp: report_finding_def no_error_def)
qed (simp add: no_error_def)

lemma errors_report_scan:
  "errors (report_scan tid (security_scan_awk F path mode) rep) = [] \<longleftrightarrow>
     errors rep = [] \<and> scan_passes F path mode"
  by (auto simp: report_scan_def scan_passes_def errors_report_findings split: sum.splits)

lemma doctor_thread_errors:
  "errors (fst (doctor_thread T F awk opts manifest pk th (rep, seen))) = [] \<longleftrightarrow>
     errors rep = [] \<and> bm_get seen (th_id th) = None \<and> certified T F awk opts (resolve_one pk th)"
proof -
  let ?path = "path_join (pk_root_dir pk) (th_file th)"
  obtain rep1 seen1 where n: "note_id manifest (th_id th) (rep, seen) = (rep1, seen1)" by force
  have r: "errors rep1 = [] \<longleftrightarrow> errors rep = [] \<and> bm_get seen (th_id th) = None"
    using n by (auto simp: note_id_def split: option.splits)
  show ?thesis
  proof (cases "fs_exists F ?path")
    case False
    then show ?thesis
      by (simp add: doctor_thread_def n Let_def certified_def resolve_one_def)
  next
    case True
    then show ?thesis
      using r
      by (auto simp: doctor_thread_def n Let_def certified_def resolve_one_def errors_report_scan
          split: sum.splits)
  qed
qed

lemma doctor_thread_seen:
  "fst ` set (snd (doctor_thread T F awk opts manifest pk th (rep, seen))) =
     insert (th_id th) (fst ` set seen)"
proof -
  have "bm_get seen (th_id th) = Some p \<Longrightarrow> th_id th \<in> fst ` set seen" for p
    by (auto simp: bm_get_def dest: map_of_SomeD intro: rev_image_eqI)
  moreover have "fst ` set (bm_insert (th_id th) manifest seen) = insert (th_id th) (fst ` set seen)"
    using bm_insert_keys [of "th_id th" manifest seen] by simp
  ultimately have "fst ` set (snd (note_id manifest (th_id th) (rep, seen))) =
      insert (th_id th) (fst ` set seen)"
    by (auto simp: note_id_def insert_absorb split: option.splits)
  then show ?thesis
    by (cases "note_id manifest (th_id th) (rep, seen)") (simp add: doctor_thread_def Let_def)
qed

lemma bm_get_None_iff: "bm_get m k = None \<longleftrightarrow> k \<notin> fst ` set m"
  by (simp add: bm_get_def map_of_eq_None_iff)

lemma doctor_threads:
  assumes "fst ` set seen = fst ` set threads"
    and "fold (doctor_thread T F awk opts manifest pk) ths (rep, seen) = (rep', seen')"
  shows "(errors rep' = [] \<longleftrightarrow>
      errors rep = [] \<and> (\<exists>threads'. index_threads pk ths threads = Ok threads')
      \<and> (\<forall>th \<in> set ths. certified T F awk opts (resolve_one pk th)))
    \<and> (\<forall>threads'. index_threads pk ths threads = Ok threads' \<longrightarrow>
         fst ` set seen' = fst ` set threads')"
  using assms
proof (induction ths arbitrary: rep seen threads)
  case Nil
  then show ?case by simp
next
  case (Cons th ths)
  obtain rep1 seen1 where s: "doctor_thread T F awk opts manifest pk th (rep, seen) = (rep1, seen1)"
    by force
  let ?threads = "threads @ [(th_id th, resolve_one pk th)]"
  have e: "errors rep1 = [] \<longleftrightarrow>
      errors rep = [] \<and> th_id th \<notin> fst ` set threads \<and> certified T F awk opts (resolve_one pk th)"
    using doctor_thread_errors [of T F awk opts manifest pk th rep seen] Cons.prems(1)
    by (simp add: s bm_get_None_iff)
  have k: "fst ` set seen1 = fst ` set ?threads"
    using doctor_thread_seen [of T F awk opts manifest pk th rep seen] Cons.prems(1) by (simp add: s)
  have f: "fold (doctor_thread T F awk opts manifest pk) ths (rep1, seen1) = (rep', seen')"
    using Cons.prems(2) by (simp add: s)
  show ?case
    using Cons.IH [OF k f] e by (cases "th_id th \<in> fst ` set threads") (simp_all add: conj_ac)
qed

lemma doctor_thread_keeps_errors:
  "errors (fst st) \<noteq> [] \<Longrightarrow> errors (fst (doctor_thread T F awk opts manifest pk th st)) \<noteq> []"
  using doctor_thread_errors [of T F awk opts manifest pk th "fst st" "snd st"] by simp

lemma doctor_fold_keeps_errors:
  "errors (fst st) \<noteq> [] \<Longrightarrow> errors (fst (fold (doctor_thread T F awk opts manifest pk) ths st)) \<noteq> []"
  by (induction ths arbitrary: st) (simp_all add: doctor_thread_keeps_errors)

lemma doctor_dirs_keeps_errors:
  "errors (fst st) \<noteq> [] \<Longrightarrow> errors (fst (doctor_dirs T F P awk opts dirs st)) \<noteq> []"
proof (induction T F P awk opts dirs st rule: doctor_dirs.induct)
  case (2 T F P awk opts dir dirs st)
  let ?mp = "path_join dir ''pack.toml''"
  show ?case
  proof (cases "fs_exists F ?mp")
    case ex: True
    show ?thesis
    proof (cases "parse_pack_manifest F P dir ?mp")
      case (Inl e)
      with 2 ex show ?thesis by (simp add: Let_def)
    next
      case (Inr pk)
      let ?st = "if pk_threads pk = [] then (push_warning (ZeroThreads ?mp) (fst st), snd st) else st"
      have "errors (fst ?st) \<noteq> []" using 2(4) by simp
      then have "errors (fst (fold (doctor_thread T F awk opts ?mp pk) (pk_threads pk) ?st)) \<noteq> []"
        by (rule doctor_fold_keeps_errors)
      from 2(3) [OF refl _ Inr refl refl this] ex Inr show ?thesis by (simp add: Let_def)
    qed
  qed (use 2 in simp)
qed simp

lemma index_threads_set:
  "index_threads pk ths threads = Ok threads' \<Longrightarrow>
     set threads' = set threads \<union> (\<lambda>th. (th_id th, resolve_one pk th)) ` set ths"
  by (induction pk ths threads rule: index_threads.induct) (auto split: if_splits)

lemma load_dirs_mono:
  "load_dirs F P dirs ix = Ok ix' \<Longrightarrow> set (ix_threads ix) \<subseteq> set (ix_threads ix')"
proof (induction F P dirs ix rule: load_dirs.induct)
  case (2 F P dir dirs ix)
  then show ?case
    by (fastforce simp: Let_def result_simps index_threads_set split: if_splits)
qed simp

definition all_certified ::
  "'t time_api \<Rightarrow> fs_api \<Rightarrow> awk_api \<Rightarrow> doctor_options \<Rightarrow> pack_index \<Rightarrow> bool" where
  "all_certified T F awk opts ix \<longleftrightarrow> list_all (certified T F awk opts \<circ> snd) (ix_threads ix)"

lemma all_certified_mono:
  "set (ix_threads ix) \<subseteq> set (ix_threads ix') \<Longrightarrow> all_certified T F awk opts ix'
    \<Longrightarrow> all_certified T F awk opts ix"
  by (auto simp: all_certified_def list_all_iff)

lemma all_certified_extend:
  assumes "index_threads pk ths (ix_threads ix) = Ok ts" and "all_certified T F awk opts ix"
  shows "all_certified T F awk opts \<lparr>ix_packs = pks, ix_threads = ts\<rparr> \<longleftrightarrow>
    (\<forall>th \<in> set ths. certified T F awk opts (resolve_one pk th))"
  using assms(2) unfolding all_certified_def list_all_iff
  by (simp add: index_threads_set [OF assms(1)] ball_Un)

text \<open>One directory with a readable manifest: the doctor and the loader move together.\<close>

lemma doctor_dir_step:
  assumes "fs_exists F (path_join dir ''pack.toml'')"
    and "parse_pack_manifest F P dir (path_join dir ''pack.toml'') = Ok pk"
    and "errors rep = []" and "fst ` set seen = fst ` set (ix_threads ix)"
    and "all_certified T F awk opts ix"
  obtains rep1 seen1 where
    "doctor_dirs T F P awk opts (dir # dirs) (rep, seen) = doctor_dirs T F P awk opts dirs (rep1, seen1)"
    and "\<And>e. index_threads pk (pk_threads pk) (ix_threads ix) = Err e \<Longrightarrow> errors rep1 \<noteq> []"
    and "\<And>ts pks. index_threads pk (pk_threads pk) (ix_threads ix) = Ok ts \<Longrightarrow>
      fst ` set seen1 = fst ` set ts
      \<and> (errors rep1 = [] \<longleftrightarrow> all_certified T F awk opts \<lparr>ix_packs = pks, ix_threads = ts\<rparr>)"
proof -
  let ?mp = "path_join dir ''pack.toml''"
  let ?rep = "if pk_threads pk = [] then push_warning (ZeroThreads ?mp) rep else rep"
  obtain rep1 seen1 where
    f: "fold (doctor_thread T F awk opts ?mp pk) (pk_threads pk) (?rep, seen) = (rep1, seen1)"
    by force
  note threads = doctor_threads [OF assms(4) f]
  show ?thesis
  proof (rule that)
    show "doctor_dirs T F P awk opts (dir # dirs) (rep, seen) =
        doctor_dirs T F P awk opts dirs (rep1, seen1)"
      using assms(1,2) f by (cases "pk_threads pk = []") (simp_all add: Let_def)
    show "errors rep1 \<noteq> []" if "index_threads pk (pk_threads pk) (ix_threads ix) = Err e" for e
      using threads that by simp
    show "fst ` set seen1 = fst ` set ts
      \<and> (errors rep1 = [] \<longleftrightarrow> all_certified T F awk opts \<lparr>ix_packs = pks, ix_threads = ts\<rparr>)"
      if "index_threads pk (pk_threads pk) (ix_threads ix) = Ok ts" for ts pks
      using threads that assms(3) all_certified_extend [OF that assms(5)] by simp
  qed
qed

lemma doctor_dirs_exact:
  assumes "errors rep = []" and "fst ` set seen = fst ` set (ix_threads ix)"
    and "all_certified T F awk opts ix"
  shows "errors (fst (doctor_dirs T F P awk opts dirs (rep, seen))) = [] \<longleftrightarrow>
    (\<exists>ix'. load_dirs F P dirs ix = Ok ix' \<and> all_certified T F awk opts ix')"
  using assms
proof (induction dirs arbitrary: rep seen ix)
  case Nil
  then show ?case by simp
next
  case (Cons dir dirs)
  let ?mp = "path_join dir ''pack.toml''"
  note keeps = doctor_dirs_keeps_errors [where T = T and F = F and P = P and awk = awk and opts = opts]
  consider (skip) "\<not> fs_exists F ?mp"
    | (bad) e where "fs_exists F ?mp" "parse_pack_manifest F P dir ?mp = Err e"
    | (good) pk where "fs_exists F ?mp" "parse_pack_manifest F P dir ?mp = Ok pk"
    by (cases "parse_pack_manifest F P dir ?mp") auto
  then show ?case
  proof cases
    case skip
    with Cons show ?thesis by simp
  next
    case bad
    then show ?thesis
      using keeps [of "(push_error (PackParseFailed ?mp e) rep, seen)" dirs] by (simp add: Let_def)
  next
    case good
    from doctor_dir_step [OF good Cons.prems, of dirs] obtain rep1 seen1 where
      run: "doctor_dirs T F P awk opts (dir # dirs) (rep, seen) =
        doctor_dirs T F P awk opts dirs (rep1, seen1)"
      and fails: "\<And>e. index_threads pk (pk_threads pk) (ix_threads ix) = Err e \<Longrightarrow> errors rep1 \<noteq> []"
      and goes: "\<And>ts pks. index_threads pk (pk_threads pk) (ix_threads ix) = Ok ts \<Longrightarrow>
        fst ` set seen1 = fst ` set ts
        \<and> (errors rep1 = [] \<longleftrightarrow> all_certified T F awk opts \<lparr>ix_packs = pks, ix_threads = ts\<rparr>)"
      by blast
    show ?thesis
    proof (cases "index_threads pk (pk_threads pk) (ix_threads ix)")
      case (Inl e)
      with fails keeps [of "(rep1, seen1)" dirs] good show ?thesis
        unfolding run by (simp add: Let_def)
    next
      case (Inr ts)
      let ?ix = "\<lparr>ix_packs = ix_packs ix @ [pk], ix_threads = ts\<rparr>"
      have load: "load_dirs F P (dir # dirs) ix = load_dirs F P dirs ?ix"
        using good Inr by (simp add: Let_def)
      have mono: "all_certified T F awk opts ?ix"
        if "load_dirs F P dirs ?ix = Ok ix'" "all_certified T F awk opts ix'" for ix'
        using all_certified_mono [OF load_dirs_mono [OF that(1)] that(2)] .
      show ?thesis
        unfolding run load
        using Cons.IH [of rep1 seen1 ?ix] goes [OF Inr, of "ix_packs ix @ [pk]"]
          keeps [of "(rep1, seen1)" dirs] mono
        by (cases "errors rep1 = []") auto
    qed
  qed
qed

lemma collect_dirs_flatten:
  "list_all (\<lambda>r. \<not> isl r) rd \<Longrightarrow> collect_dirs F rd = Ok (filter (fs_is_dir F)
     (List.map_filter (\<lambda>r. case r of Inl _ \<Rightarrow> None | Inr p \<Rightarrow> Some p) rd))"
proof (induction rd)
  case (Cons r rd)
  then show ?case by (cases r) (simp_all add: map_filter_simps)
qed (simp add: map_filter_simps)

definition listing_ok :: "fs_api \<Rightarrow> string \<Rightarrow> bool" where
  "listing_ok F dir \<longleftrightarrow>
     (case fs_read_dir F dir of Inl _ \<Rightarrow> True | Inr rd \<Rightarrow> list_all (\<lambda>r. \<not> isl r) rd)"

lemma report_ok_iff:
  assumes "listing_ok F dir"
  shows "report_ok (run_pack_doctor T F P awk dir opts) \<longleftrightarrow>
    (\<exists>ix. load_packs F P dir = Ok ix \<and> all_certified T F awk opts ix)"
proof (cases "fs_exists F dir")
  case False
  then show ?thesis
    by (simp add: run_pack_doctor_def report_ok_def report_new_def load_packs_def all_certified_def)
next
  case ex: True
  show ?thesis
  proof (cases "fs_read_dir F dir")
    case (Inl e)
    with ex show ?thesis
      by (simp add: run_pack_doctor_def report_ok_def load_packs_def Let_def)
  next
    case (Inr rd)
    with assms have "list_all (\<lambda>r. \<not> isl r) rd" by (simp add: listing_ok_def)
    from collect_dirs_flatten [OF this, of F] ex Inr show ?thesis
      unfolding run_pack_doctor_def report_ok_def load_packs_def Let_def
      by (simp add: doctor_dirs_exact [where ix = "\<lparr>ix_packs = [], ix_threads = []\<rparr>"]
          report_new_def all_certified_def)
  qed
qed

text \<open>
  C7: where listing the packs directory gives no entry errors, the doctor reports no error
  exactly when the loader accepts the directory and every thread of the loaded index has a
  script that exists, passes the security scan and, if asked for, passes the smoke test.
\<close>

theorem doctor_certifies:
  assumes "listing_ok F dir"
  shows "report_ok (run_pack_doctor T F P awk dir opts) \<longleftrightarrow>
    (\<exists>ix. load_packs F P dir = Ok ix \<and> all_certified T F awk opts ix)"
  using assms by (rule report_ok_iff)

definition demo_awk :: awk_api where
  "demo_awk args input = AwkExited True
     (join [TAB] [''5'', ''HEALTH'', ''service'', ''alpha'', ''ok'', ''alive'', ''pid=7''] @ [LF])"

theorem doctor_certifies_witness:
  "report_ok (run_pack_doctor dec_time (demo_fs ''good'') demo_toml demo_awk ''packs''
       \<lparr>opt_smoke = True, opt_security = SecStrict\<rparr>)
   \<and> \<not> report_ok (run_pack_doctor dec_time (demo_fs ''system(1)'') demo_toml demo_awk ''packs''
       \<lparr>opt_smoke = True, opt_security = SecStrict\<rparr>)"
proof -
  let ?o = "\<lparr>opt_smoke = True, opt_security = SecStrict\<rparr>"
  have l: "listing_ok (demo_fs ''good'') ''packs''" "listing_ok (demo_fs ''system(1)'') ''packs''"
    by code_simp+
  have good: "all_certified dec_time (demo_fs ''good'') demo_awk ?o demo_index"
    by code_simp
  have load: "load_packs (demo_fs ''system(1)'') demo_toml ''packs'' = Ok demo_index"
    by code_simp
  have bad: "\<not> all_certified dec_time (demo_fs ''system(1)'') demo_awk ?o demo_index"
    by code_simp
  show ?thesis
    unfolding doctor_certifies [OF l(1)] doctor_certifies [OF l(2)] load demo_loads
    using good bad by simp
qed

text \<open>
  The smoke test trims a line before it parses it, so it rejects a line with an empty
  timestamp column, which the frame parser accepts.
\<close>

lemma smoke_rejects_valid_line:
  "parse_tsv_line dec_time sample_line = Ok (Some sample_frame)
   \<and> smoke_lines dec_time (lines sample_line) = Err (SmokeInvalidLine (trim sample_line))"
  by code_simp

text \<open>The scan matches text, not tokens: a blank before the parenthesis hides a call.\<close>

lemma scan_misses_spaced_call:
  "contains ''system('' ''{ system(cmd) }'' \<and> flagged SecStrict ''{ system(cmd) }''
   \<and> \<not> flagged SecStrict ''{ system (cmd) }''"
  by code_simp

end
