(* ===== verification/Hawk_Main.thy ===== *)
theory Hawk_Main
  imports Hawk_Ui Hawk_Awk Hawk_Doctor Rust_Debug
begin

text \<open>
  The mirror's command line (\<open>crates/hawk/src/main.rs\<close>): the arguments, the choice of a
  transform and of its variables, the threads between source and interface, and the pack
  commands. Argument parsing by \<open>clap\<close> is outside; its result is the record below. What
  reaches the interface is a list per thread, interleaved in any way.
\<close>

section \<open>Arguments\<close>

datatype hawk_source = FromStdin | FromUnix

datatype pack_command = PackList | PackShow string | PackDoctorSub bool string

datatype hawk_command = Pack pack_command | PackDoctor bool string

record hawk_cli =
  cl_cmd :: "hawk_command option"
  cl_source :: hawk_source
  cl_socket_path :: string
  cl_strict :: bool
  cl_tail_size :: nat
  cl_stale_s :: int
  cl_dead_s :: int
  cl_packs_dir :: string
  cl_transform :: string
  cl_tvars :: "(string \<times> string) list"

definition parse_kv :: "string \<Rightarrow> string + string \<times> string" where
  "parse_kv s =
     and_then (ok_or ''expected key=value'' (split_once CHR ''='' s)) (\<lambda>(k, v).
       let key = trim k; val = trim v in
       if key = [] then Err ''empty key'' else Ok (key, val))"

section \<open>The transform\<close>

datatype hawk_error = LoadPacks pack_error | Message string | Runner awk_error

definition strip_prefix :: "string \<Rightarrow> string \<Rightarrow> string option" where
  "strip_prefix p s = (if prefix p s then Some (drop (length p) s) else None)"

definition parse_transform :: "string \<Rightarrow> hawk_error + string \<times> string" where
  "parse_transform s =
     (case strip_prefix ''thread:'' s of
        Some rest \<Rightarrow> (let t = trim rest in
          if t = [] then Err (Message ''empty thread id'') else Ok (''thread'', t))
      | None \<Rightarrow> (case strip_prefix ''file:'' s of
          Some rest \<Rightarrow> (let p = trim rest in
            if p = [] then Err (Message ''empty file path'') else Ok (''file'', p))
        | None \<Rightarrow> Err (Message ''transform must be none, thread:<id>, or file:<path>'')))"

definition insert_tvars :: "(string \<times> string) list \<Rightarrow> (string, string) btree_map \<Rightarrow> (string, string) btree_map" where
  "insert_tvars kvs m = fold (\<lambda>(k, v). bm_insert k v) kvs m"

text \<open>The script to run and the variables to run it with.\<close>

definition plan_transform ::
  "pack_index \<Rightarrow> string \<Rightarrow> (string \<times> string) list \<Rightarrow> hawk_error + string \<times> (string, string) btree_map" where
  "plan_transform idx transform cli_tvars =
     (let tvars = insert_tvars cli_tvars [] in
      and_then (parse_transform transform) (\<lambda>(mode, target).
        if mode = ''thread'' then
          and_then (ok_or (Message (''thread not found: '' @ target)) (resolve_thread idx target)) (\<lambda>th.
            let merged = insert_tvars tvars (default_tvars (tr_args th)) in
            and_then (map_err Message (validate_tvars (tr_args th) merged)) (\<lambda>_.
              Ok (tr_script_path th, merged)))
        else if mode = ''file'' then Ok (target, tvars)
        else Err (Message ''unknown transform mode'')))"

section \<open>The threads between source and interface\<close>

text \<open>
  The outside of a run: the connection and what is read from the source, the start of the
  process, the clock and the answer for each frame written to it, what it prints for the
  lines it gets, and its exit.
\<close>

record 't hawk_env =
  en_stdin :: "read_result list"
  en_socket :: "string + read_result list"
  en_start :: "string list \<Rightarrow> spawn_answer"
  en_write :: "nat \<Rightarrow> 't \<times> write_answer"
  en_awk :: "string list \<Rightarrow> string list \<Rightarrow> read_result list"
  en_wait :: "string + bool \<times> string"

definition source_stream :: "'t time_api \<Rightarrow> 't hawk_env \<Rightarrow> hawk_cli \<Rightarrow> 't ingest_msg list" where
  "source_stream T env cli =
     (case cl_source cli of
        FromStdin \<Rightarrow> stdin_reader T (cl_strict cli) (en_stdin env)
      | FromUnix \<Rightarrow> unix_reader T (cl_socket_path cli) (cl_strict cli) (en_socket env))"

fun is_frame :: "'t ingest_msg \<Rightarrow> bool" where
  "is_frame (Frame f) = True"
| "is_frame _ = False"

definition writer_events :: "(nat \<Rightarrow> 't \<times> write_answer) \<Rightarrow> 't hawk_frame list
    \<Rightarrow> (('t hawk_frame \<times> 't) \<times> write_answer) list" where
  "writer_events w fs = map (\<lambda>(i, f). ((f, fst (w i)), snd (w i))) (enumerate 0 fs)"

definition awk_io_error :: "string \<Rightarrow> 't ingest_msg" where
  "awk_io_error e = IoError (''awk: '' @ e)"

text \<open>What each thread sends to the interface when a transform runs with the given arguments.\<close>

definition transform_streams ::
  "'t time_api \<Rightarrow> 't hawk_env \<Rightarrow> string list \<Rightarrow> 't ingest_msg list \<Rightarrow> 't ingest_msg list list" where
  "transform_streams T env args source =
     (let frames = List.map_filter frame_of_msg source;
          others = filter (\<lambda>m. \<not> is_frame m) source;
          (out, errs) = start_bridge T (writer_events (en_write env) frames) (en_awk env args) (en_wait env)
      in [others, map Frame out] @ map (map awk_io_error) errs)"

text \<open>\<open>main\<close> without a pack command, up to the start of the interface.\<close>

definition hawk_streams ::
  "'t time_api \<Rightarrow> fs_api \<Rightarrow> 'v toml_api \<Rightarrow> 't hawk_env \<Rightarrow> hawk_cli \<Rightarrow> hawk_error + 't ingest_msg list list" where
  "hawk_streams T F P env cli =
     and_then (map_err LoadPacks (load_packs F P (cl_packs_dir cli))) (\<lambda>idx.
       let source = source_stream T env cli;
           transform = trim (cl_transform cli)
       in if transform = ''none'' then Ok [source]
          else and_then (plan_transform idx transform (cl_tvars cli)) (\<lambda>(script_path, tvars).
            and_then (map_err Runner (awk_spawn F (en_start env) script_path tvars)) (\<lambda>args.
              Ok (transform_streams T env args source))))"

section \<open>Pack commands\<close>

datatype pack_output = OutLine string | WarnLine doctor_msg | FailLine doctor_msg

definition list_rows :: "(string \<times> thread_resolved) list \<Rightarrow> (string \<times> thread_resolved) list" where
  "list_rows threads = sort_by (\<lambda>a b. cmp (fst a) (fst b)) threads"

definition list_line :: "string \<times> thread_resolved \<Rightarrow> string" where
  "list_line row = (case row of (tid, th) \<Rightarrow>
     tid @ [TAB] @ tr_pack_id th @ [TAB] @ tr_kind th @ [TAB] @ tr_title th)"

fun arg_type_str :: "arg_type \<Rightarrow> string" where
  "arg_type_str ArgString = ''string''"
| "arg_type_str ArgInt = ''int''"
| "arg_type_str ArgBool = ''bool''"

definition show_lines :: "(string \<Rightarrow> string) \<Rightarrow> thread_resolved \<Rightarrow> string list" where
  "show_lines U th =
     [''id: '' @ tr_thread_id th, ''pack: '' @ tr_pack_id th, ''kind: '' @ tr_kind th,
      ''title: '' @ tr_title th, ''desc: '' @ tr_description th,
      ''script: '' @ debug_str U (tr_script_path th)]
     @ (if tr_args th = [] then [''args: none'']
        else ''args:'' # map (\<lambda>a. ''  - '' @ a_name a @ '' ('' @ arg_type_str (a_ty a) @ '') default=''
               @ a_default a @ '' :: '' @ a_help a) (tr_args th))"

definition parse_security :: "string \<Rightarrow> hawk_error + security_mode" where
  "parse_security s =
     (if s = ''strict'' then Ok SecStrict
      else if s = ''warn'' then Ok SecWarn
      else if s = ''off'' then Ok SecOff
      else Err (Message (''unknown security mode '' @ [CHR 0x27] @ s @ [CHR 0x27]
             @ '', expected strict|warn|off'')))"

text \<open>The lines printed, and the exit code.\<close>

definition run_doctor ::
  "'t time_api \<Rightarrow> fs_api \<Rightarrow> 'v toml_api \<Rightarrow> awk_api \<Rightarrow> hawk_cli \<Rightarrow> bool \<Rightarrow> string
    \<Rightarrow> hawk_error + pack_output list \<times> nat" where
  "run_doctor T F P awk cli smoke security =
     and_then (parse_security security) (\<lambda>sec_mode.
       let rep = run_pack_doctor T F P awk (cl_packs_dir cli) \<lparr>opt_smoke = smoke, opt_security = sec_mode\<rparr>;
           out = map WarnLine (warnings rep) @ map FailLine (errors rep)
       in if report_ok rep then Ok (out @ [OutLine (''OK'' @ [TAB] @ ''pack doctor passed'')], 0)
          else Ok (out, 2))"

definition run_pack_cmd ::
  "'t time_api \<Rightarrow> (string \<Rightarrow> string) \<Rightarrow> fs_api \<Rightarrow> 'v toml_api \<Rightarrow> awk_api \<Rightarrow> hawk_cli \<Rightarrow> hawk_command
    \<Rightarrow> hawk_error + pack_output list \<times> nat" where
  "run_pack_cmd T U F P awk cli cmd =
     (case cmd of
        Pack sub \<Rightarrow>
          and_then (map_err LoadPacks (load_packs F P (cl_packs_dir cli))) (\<lambda>idx.
            case sub of
              PackList \<Rightarrow> Ok (map (OutLine \<circ> list_line) (list_rows (ix_threads idx)), 0)
            | PackShow thread_id \<Rightarrow>
                and_then (ok_or (Message (''thread not found: '' @ thread_id)) (resolve_thread idx thread_id)) (\<lambda>th.
                  Ok (map OutLine (show_lines U th), 0))
            | PackDoctorSub smoke security \<Rightarrow> run_doctor T F P awk cli smoke security)
      | PackDoctor smoke security \<Rightarrow> run_doctor T F P awk cli smoke security)"

section \<open>A run\<close>

datatype 't hawk_outcome =
    PackDone "pack_output list" nat
  | Tui "('t app \<times> terminal \<times> (string + unit)) option"

text \<open>
  \<open>main\<close>: a pack command, or the interface over the merged streams, whose turns find the
  messages pending.
\<close>

definition hawk_main ::
  "'t time_api \<Rightarrow> (string \<Rightarrow> string) \<Rightarrow> fs_api \<Rightarrow> 'v toml_api \<Rightarrow> awk_api \<Rightarrow> 't hawk_env \<Rightarrow> tui_answers
    \<Rightarrow> ('t ingest_msg list list \<Rightarrow> 't tick list) \<Rightarrow> hawk_cli \<Rightarrow> hawk_error + 't hawk_outcome" where
  "hawk_main T U F P awk env ans turns cli =
     (case cl_cmd cli of
        Some cmd \<Rightarrow>
          and_then (run_pack_cmd T U F P awk cli cmd) (\<lambda>(out, code). Ok (PackDone out code))
      | None \<Rightarrow>
          and_then (hawk_streams T F P env cli) (\<lambda>streams.
            Ok (Tui (run_tui T ans (app_new (cl_tail_size cli) (cl_stale_s cli) (cl_dead_s cli))
                  (turns streams)))))"

section \<open>Variables and scripts\<close>

lemma bm_get_insert_tvars:
  assumes "bm_wf m"
  shows "bm_get (insert_tvars kvs m) k = (case map_of (rev kvs) k of Some v \<Rightarrow> Some v | None \<Rightarrow> bm_get m k)"
proof -
  have "insert_tvars kvs m = bm.insert_all kvs m"
    by (simp add: insert_tvars_def bm.insert_all_def)
  then show ?thesis
    using bm.get_insert_all [OF assms, of kvs k] by (simp split: option.splits)
qed

lemma bm_wf_insert_tvars: "bm_wf m \<Longrightarrow> bm_wf (insert_tvars kvs m)"
  using bm.wf_insert_all [of m kvs] by (simp add: insert_tvars_def bm.insert_all_def)

lemma bm_wf_default_tvars: "bm_wf (default_tvars args)"
  by (simp add: default_tvars_insert_all bm.wf_insert_all)

lemma bm_get_default_tvars: "bm_get (default_tvars args) k = map_option a_default (allowed_args args k)"
proof -
  have "bm_get (default_tvars args) k = Some v \<longleftrightarrow> map_option a_default (allowed_args args k) = Some v" for v
    using bm.entries_mem [OF bm_wf_default_tvars, of k v args] mem_default_tvars [of k v args] by auto
  then show ?thesis by (metis option.exhaust)
qed

lemma map_of_rev_distinct: "bm_wf m \<Longrightarrow> map_of (rev m) k = bm_get m k"
proof -
  assume "bm_wf m"
  then have "distinct (map fst m)" by (rule bm.distinct_entries)
  then have "map_of (rev m) = map_of m"
    by (intro map_of_inject_set [THEN iffD2]) (simp_all add: rev_map [symmetric])
  then show ?thesis by (simp add: bm_get_def)
qed

text \<open>
  \<open>thread:<id>\<close> runs the script of the thread of that id, with variables that all pass
  the thread's schema; each variable has the last value given on the command line, or else
  the default of its last declaration.
\<close>

theorem thread_transform_plan:
  assumes "prefix ''thread:'' transform" and "plan_transform idx transform tvars = Ok (script, vars)"
  shows "\<exists>th. resolve_thread idx (trim (drop 7 transform)) = Some th
    \<and> script = tr_script_path th \<and> validate_tvars (tr_args th) vars = Ok ()
    \<and> (\<forall>k. bm_get vars k = (case map_of (rev tvars) k of
                              Some v \<Rightarrow> Some v
                            | None \<Rightarrow> map_option a_default (allowed_args (tr_args th) k)))"
proof -
  let ?t = "insert_tvars tvars []"
  have t: "parse_transform transform = Ok (''thread'', trim (drop 7 transform))"
    using assms by (auto simp: parse_transform_def strip_prefix_def plan_transform_def Let_def eval_nat_numeral
        split: if_splits)
  from assms(2) obtain th where th: "resolve_thread idx (trim (drop 7 transform)) = Some th"
    "validate_tvars (tr_args th) (insert_tvars ?t (default_tvars (tr_args th))) = Ok ()"
    "script = tr_script_path th" "vars = insert_tvars ?t (default_tvars (tr_args th))"
    by (auto simp: plan_transform_def t Let_def result_simps)
  have "map_of (rev ?t) k = map_of (rev tvars) k" for k
    using map_of_rev_distinct [OF bm_wf_insert_tvars [OF bm_wf_Nil], of tvars k]
      bm_get_insert_tvars [OF bm_wf_Nil, of tvars k]
    by (simp split: option.splits)
  then have "bm_get vars k = (case map_of (rev tvars) k of
      Some v \<Rightarrow> Some v | None \<Rightarrow> map_option a_default (allowed_args (tr_args th) k))" for k
    using bm_get_insert_tvars [OF bm_wf_default_tvars, of ?t "tr_args th" k]
    by (cases "map_of (rev tvars) k") (simp_all add: th(4) bm_get_default_tvars)
  with th show ?thesis by blast
qed

theorem thread_transform_plan_witness:
  "\<exists>th. resolve_thread demo_index ''fail_only'' = Some th
    \<and> validate_tvars (tr_args th) [(''window_s'', ''9'')] = Ok ()"
proof -
  have "plan_transform demo_index ''thread: fail_only'' [(''window_s'', ''7''), (''window_s'', ''9'')] =
      Ok (''packs/hawk.core/./awk/fail_only.awk'', [(''window_s'', ''9'')])"
    "prefix ''thread:'' ''thread: fail_only''" "trim (drop 7 ''thread: fail_only'') = ''fail_only''"
    by code_simp+
  then show ?thesis
    using thread_transform_plan [of "''thread: fail_only''" demo_index
        "[(''window_s'', ''7''), (''window_s'', ''9'')]"
        "''packs/hawk.core/./awk/fail_only.awk''" "[(''window_s'', ''9'')]"]
    by (simp only:) blast
qed

section \<open>Pack commands\<close>

lemma cmp_key_preorder: "total_preorder (\<lambda>a b. cmp (f a) (f b :: 'k::linorder))"
  by unfold_locales auto

interpretation rows: total_preorder "\<lambda>a b :: string \<times> thread_resolved. cmp (fst a) (fst b)"
  by (rule cmp_key_preorder)

text \<open>
  \<open>pack list\<close> prints one line per thread of the index, in strictly ascending order
  of their ids, whatever order the hash map of the index iterates in.
\<close>

theorem pack_list_deterministic:
  assumes "load_packs F P dir = Ok idx" and "mset threads = mset (ix_threads idx)"
  shows "list_rows threads = list_rows (ix_threads idx)
    \<and> sorted_wrt (<) (map fst (list_rows threads)) \<and> mset (list_rows threads) = mset (ix_threads idx)"
proof -
  have d: "distinct (map fst (ix_threads idx))"
    using load_packs_ok [OF assms(1)] unfolding index_ok_def by blast
  have inj: "x = y" if "x \<in> set threads" "y \<in> set threads" "cmp (fst x) (fst y) = Equal" for x y
  proof -
    from that have "x \<in> set (ix_threads idx)" "y \<in> set (ix_threads idx)" "fst x = fst y"
      using mset_eq_setD [OF assms(2)] by auto
    with d show ?thesis by (auto simp: distinct_map dest: inj_onD)
  qed
  have eq: "list_rows threads = list_rows (ix_threads idx)"
    unfolding list_rows_def by (rule rows.sort_by_unique [OF assms(2) inj])
  have m: "mset (list_rows threads) = mset (ix_threads idx)"
    using assms(2) by (simp add: list_rows_def)
  then have "distinct (map fst (list_rows threads))"
    using d by (metis distinct_map mset_map mset_eq_imp_distinct_iff)
  moreover have "sorted (map fst (list_rows threads))"
    using rows.sorted_sort_by [of threads] by (simp add: list_rows_def sorted_map not_less)
  ultimately have "sorted_wrt (<) (map fst (list_rows threads))"
    by (simp add: strict_sorted_iff)
  with eq m show ?thesis by simp
qed

theorem pack_list_deterministic_witness:
  "sorted_wrt (<) (map fst (list_rows (rev (ix_threads demo_index))))"
  by (rule conjunct1 [OF conjunct2 [OF pack_list_deterministic [OF demo_loads mset_rev]]])

text \<open>
  C38: on a packs directory that does not load, \<open>pack-doctor\<close> prints its report and exits
  with 2, but \<open>pack doctor\<close> fails with the load error before the doctor runs.
\<close>

theorem pack_doctor_shadowed:
  assumes "load_packs F P (cl_packs_dir cli) = Err e" and "listing_ok F (cl_packs_dir cli)"
    and "parse_security security = Ok mode"
  shows "run_pack_cmd T U F P awk cli (Pack (PackDoctorSub smoke security)) = Err (LoadPacks e)
    \<and> (\<exists>out. run_pack_cmd T U F P awk cli (PackDoctor smoke security) = Ok (out, 2))"
proof -
  have "\<not> report_ok (run_pack_doctor T F P awk (cl_packs_dir cli) opts)" for opts
    using report_ok_iff [OF assms(2), of T P awk opts] assms(1) by simp
  with assms show ?thesis
    by (simp add: run_pack_cmd_def run_doctor_def Let_def)
qed

definition demo_cli :: hawk_cli where
  "demo_cli = \<lparr>cl_cmd = None, cl_source = FromStdin, cl_socket_path = ''/tmp/hawk.sock'', cl_strict = False,
     cl_tail_size = 200, cl_stale_s = 10, cl_dead_s = 30, cl_packs_dir = ''packs'', cl_transform = ''none'',
     cl_tvars = []\<rparr>"

theorem pack_doctor_shadowed_witness:
  "\<exists>e. run_pack_cmd dec_time (\<lambda>s. s) (demo_fs ''bad'') demo_toml demo_awk demo_cli
     (Pack (PackDoctorSub True ''strict'')) = Err (LoadPacks e)"
proof -
  have l: "isl (load_packs (demo_fs ''bad'') demo_toml (cl_packs_dir demo_cli))"
    "listing_ok (demo_fs ''bad'') (cl_packs_dir demo_cli)" "parse_security ''strict'' = Ok SecStrict"
    by code_simp+
  from l(1) obtain e where "load_packs (demo_fs ''bad'') demo_toml (cl_packs_dir demo_cli) = Err e"
    by (auto simp: isl_def)
  from pack_doctor_shadowed [OF this l(2,3)] show ?thesis by blast
qed

section \<open>Any interleaving gives the same mirror\<close>

lemma ingest_all_split:
  "ingest_all T zs a =
     (ingest_all T (filter (is_frame \<circ> snd) zs) a)
       \<lparr>parse_errors := parse_errors a + of_nat (length (filter (is_parse_error \<circ> snd) zs)),
        io_errors := io_errors a + of_nat (length (filter (is_io_error \<circ> snd) zs))\<rparr>"
proof (induction zs rule: rev_induct)
  case (snoc z zs)
  have keep: "parse_errors (ingest_all T (filter (is_frame \<circ> snd) ys) a) = parse_errors a"
    "io_errors (ingest_all T (filter (is_frame \<circ> snd) ys) a) = io_errors a" for ys
    by (induction ys rule: rev_induct) (auto simp: ingest_frame_eq elim!: is_frame.elims)
  show ?case
    by (cases "snd z") (simp_all add: snoc ingest_frame_eq)
qed (simp add: ingest_all_def)

lemma awk_io_error_simps [simp]:
  "\<not> is_frame (awk_io_error e)" "\<not> is_parse_error (awk_io_error e)" "is_io_error (awk_io_error e)"
  by (simp_all add: awk_io_error_def)

lemma filter_awk_io_errors [simp]:
  "filter is_frame (map awk_io_error es) = []" "filter is_parse_error (map awk_io_error es) = []"
  "filter is_io_error (map awk_io_error es) = map awk_io_error es"
  by (induction es) simp_all

lemma filter_map_Frame [simp]:
  "filter is_frame (map Frame fs) = map Frame fs" "filter is_parse_error (map Frame fs) = []"
  "filter is_io_error (map Frame fs) = []"
  by (induction fs) simp_all

lemma not_frame_simps [simp]:
  "(\<not> is_frame m \<and> is_parse_error m) = is_parse_error m"
  "(\<not> is_frame m \<and> is_io_error m) = is_io_error m"
  by (cases m; simp)+

text \<open>
  C17: with a transform, whatever order the threads reach the interface in, the mirror ends in
  the same state: the frames of the process in the order it printed them, and counters that
  add the parse errors of the source, its read errors and the errors of the bridge.
\<close>

theorem transform_order_irrelevant:
  assumes "merges (transform_streams T env args source) (map snd zs)"
  shows "map snd (filter (is_frame \<circ> snd) zs) = transform_streams T env args source ! 1
    \<and> ingest_all T zs a =
      (ingest_all T (filter (is_frame \<circ> snd) zs) a)
        \<lparr>parse_errors := parse_errors a + of_nat (length (filter is_parse_error source)),
         io_errors := io_errors a + of_nat (length (filter is_io_error source)
           + length (transform_streams T env args source ! 2) + length (transform_streams T env args source ! 3)
           + length (transform_streams T env args source ! 4))\<rparr>"
proof -
  obtain f w r x where xs: "transform_streams T env args source =
      [filter (\<lambda>m. \<not> is_frame m) source, map Frame f, map awk_io_error w, map awk_io_error r, map awk_io_error x]"
    by (cases "bridge_writer T (writer_events (en_write env) (List.map_filter frame_of_msg source))")
      (simp add: transform_streams_def start_bridge_def Let_def)
  have "filter is_frame (map snd zs) = filter is_frame (transform_streams T env args source ! 1)"
    by (rule merges_filter [OF assms])
      (auto simp: xs less_Suc_eq nth_Cons' simp flip: One_nat_def split: if_splits)
  then have "map snd (filter (is_frame \<circ> snd) zs) = transform_streams T env args source ! 1"
    by (simp add: xs filter_map)
  moreover have "length (filter (p \<circ> snd) zs) =
      sum_list (map (\<lambda>xs. length (filter p xs)) (transform_streams T env args source))" for p
    using merges_count [OF assms, of p] by (simp add: filter_map)
  from this [of is_parse_error] this [of is_io_error]
  have "length (filter (is_parse_error \<circ> snd) zs) = length (filter is_parse_error source)"
    "length (filter (is_io_error \<circ> snd) zs) = length (filter is_io_error source)
       + length (transform_streams T env args source ! 2) + length (transform_streams T env args source ! 3)
       + length (transform_streams T env args source ! 4)"
    by (simp_all add: xs)
  ultimately show ?thesis
    by (subst ingest_all_split) simp
qed

definition demo_env :: "int hawk_env" where
  "demo_env = \<lparr>en_stdin = [], en_socket = Ok [], en_start = (\<lambda>_. Spawned), en_write = (\<lambda>i. (int i, WriteOk)),
     en_awk = (\<lambda>args ls. map ReadOk (lines (concat ls))), en_wait = Ok (False, ''1'')\<rparr>"

theorem transform_order_irrelevant_witness:
  "io_errors (ingest_all dec_time [(7, awk_io_error ''awk exited with status 1''), (8, Frame (sample_frame\<lparr>hf_ts := Some 0\<rparr>)),
       (9, ParseError Empty)] (app_new 5 10 30)) = 1"
proof -
  let ?src = "[Frame sample_frame, ParseError Empty]"
  let ?f = "Frame (sample_frame\<lparr>hf_ts := Some 0\<rparr>)" and ?e = "awk_io_error ''awk exited with status 1''"
  have s: "transform_streams dec_time demo_env [] ?src = [[ParseError Empty], [?f], [], [], [?e]]"
    by code_simp
  have "merges [[ParseError Empty], [?f], [], [], [?e]] [?e, ?f, ParseError Empty]"
    by (rule merges_take [of 4], simp, simp, rule merges_take [of 1], simp, simp,
        rule merges_take [of 0], simp, simp, rule merges_done) simp
  then have "merges (transform_streams dec_time demo_env [] ?src) (map snd [(7, ?e), (8, ?f), (9, ParseError Empty)])"
    unfolding s by simp
  from transform_order_irrelevant [OF this, of "app_new 5 10 30"] show ?thesis
    unfolding s by (simp add: app_new_def)
qed

end
