(* ===== verification/Awk_Threads.thy ===== *)
theory Awk_Threads
  imports Hawk_Main
begin

text \<open>
  The threads of the bundled pack (\<open>packs/hawk.core\<close>): the awk programs
  \<open>fail_only.awk\<close>, \<open>systemd_focus.awk\<close> and \<open>scope_counts.awk\<close>, with what they
  use of awk: records and fields, variables given with \<open>-v\<close>, string functions and the
  comparison of texts that look like numbers. What looks like a number, and the escape
  sequences of \<open>-v\<close>, are those of the awk that is installed and parameters of the model.
  The value of a text as a number is whole: the only one used is the window of
  \<open>scope_counts.awk\<close>, an integer argument by the manifest of the pack.
\<close>

section \<open>What the programs use of awk\<close>

record 'n awk_lang =
  al_num :: "string \<Rightarrow> 'n option"
  al_value :: "string \<Rightarrow> int"
  al_unescape :: "string \<Rightarrow> string"

text \<open>A value without a backslash has no escape sequence.\<close>

definition awk_lang_ok :: "'n awk_lang \<Rightarrow> bool" where
  "awk_lang_ok L \<longleftrightarrow> (\<forall>v. CHR 0x5C \<notin> set v \<longrightarrow> al_unescape L v = v)"

text \<open>The records of the input: its lines, the last one also when its newline is missing.\<close>

definition records :: "string \<Rightarrow> string list" where
  "records s = (let ps = split_on LF s in if last ps = [] then butlast ps else ps)"

text \<open>\<open>$n\<close> with \<open>FS = "\t"\<close>.\<close>

definition fld :: "nat \<Rightarrow> string \<Rightarrow> string" where
  "fld n line = (let fs = split_on TAB line in if 0 < n \<and> n \<le> length fs then fs ! (n - 1) else [])"

text \<open>The variables that \<open>-v\<close> assigns, the last assignment last.\<close>

fun awk_vars :: "string list \<Rightarrow> (string \<times> string) list" where
  "awk_vars (f # a # rest) =
     (if f = ''-v'' then (case split_once CHR ''='' a of
                            Some kv \<Rightarrow> kv # awk_vars rest
                          | None \<Rightarrow> awk_vars rest)
      else [])"
| "awk_vars _ = []"

definition awk_var :: "'n awk_lang \<Rightarrow> string list \<Rightarrow> string \<Rightarrow> string" where
  "awk_var L args name = (case map_of (rev (awk_vars args)) name of None \<Rightarrow> [] | Some v \<Rightarrow> al_unescape L v)"

text \<open>Fields and variables that both look like numbers are compared as numbers.\<close>

definition awk_same :: "'n awk_lang \<Rightarrow> string \<Rightarrow> string \<Rightarrow> bool" where
  "awk_same L a b = (case (al_num L a, al_num L b) of (Some x, Some y) \<Rightarrow> x = y | _ \<Rightarrow> a = b)"

text \<open>\<open>index(s, t)\<close>: the position of the first occurrence, from 1, or 0.\<close>

fun awk_index :: "string \<Rightarrow> string \<Rightarrow> nat" where
  "awk_index [] t = (if t = [] then 1 else 0)"
| "awk_index (x # xs) t =
     (if prefix t (x # xs) then 1
      else (let i = awk_index xs t in if i = 0 then 0 else Suc i))"

text \<open>A program that handles each record on its own, and the process that runs it.\<close>

definition awk_run :: "(string \<Rightarrow> string list) \<Rightarrow> string \<Rightarrow> string" where
  "awk_run body s = concat (map (\<lambda>r. concat (map (\<lambda>l. l @ [LF]) (body r))) (records s))"

definition thread_process ::
  "(string list \<Rightarrow> string \<Rightarrow> string list) \<Rightarrow> string list \<Rightarrow> string list \<Rightarrow> read_result list" where
  "thread_process prog args pieces = map ReadOk (lines (awk_run (prog args) (concat pieces)))"

section \<open>The programs\<close>

definition fail_only :: "'n awk_lang \<Rightarrow> string list \<Rightarrow> string \<Rightarrow> string list" where
  "fail_only L args line =
     (let scope = awk_var L args ''scope'';
          lvl = to_ascii_lowercase (fld 5 line)
      in if lvl \<noteq> ''fail'' \<and> lvl \<noteq> ''warn'' then []
         else if scope \<noteq> [] \<and> \<not> awk_same L (fld 3 line) scope then []
         else [line])"

definition systemd_focus :: "'n awk_lang \<Rightarrow> string list \<Rightarrow> string \<Rightarrow> string list" where
  "systemd_focus L args line =
     (let id_prefix = awk_var L args ''id_prefix''
      in if fld 3 line \<noteq> ''systemd'' then []
         else if id_prefix \<noteq> [] \<and> awk_index (fld 4 line) id_prefix \<noteq> 1 then []
         else [line])"

text \<open>
  \<open>scope_counts.awk\<close> counts frames by scope and level and prints the counts when a frame
  arrives after the end of the window. An event is a record with the two readings of the
  clock it can cause; \<open>ord\<close> is the order in which \<open>for (k in counts)\<close> visits the keys.
\<close>

record counts_state =
  cs_counts :: "(string, nat) btree_map"
  cs_next_emit :: int

definition window_of :: "'n awk_lang \<Rightarrow> string list \<Rightarrow> string" where
  "window_of L args = (let w = awk_var L args ''window_s'' in if w = [] then ''10'' else w)"

definition counts_begin :: "'n awk_lang \<Rightarrow> string list \<Rightarrow> int \<Rightarrow> counts_state" where
  "counts_begin L args now = \<lparr>cs_counts = [], cs_next_emit = now + al_value L (window_of L args)\<rparr>"

definition count_key :: "string \<Rightarrow> string" where
  "count_key line = fld 3 line @ ''|'' @ to_ascii_lowercase (fld 5 line)"

definition split_part :: "string \<Rightarrow> nat \<Rightarrow> string" where
  "split_part k n = (let ps = split_on CHR ''|'' k in if 0 < n \<and> n \<le> length ps then ps ! (n - 1) else [])"

definition emit_summary :: "'n awk_lang \<Rightarrow> string list \<Rightarrow> string \<Rightarrow> string \<Rightarrow> nat \<Rightarrow> string" where
  "emit_summary L args line k c =
     (let now = (if fld 1 line = [] then ''1970-01-01T00:00:00Z'' else fld 1 line);
          ts = (if fld 1 line = [] then now else fld 1 line);
          kv = ''src_scope='' @ split_part k 1 @ '';src_level='' @ split_part k 2
               @ '';count='' @ to_dec (int c) @ '';window_s='' @ window_of L args
      in join [TAB] [ts, ''RECEIPT_EVENT'', ''awk'', ''scope_counts'', ''info'', ''count'', kv])"

text \<open>The summaries due at a record, as keys with their counts, and the state after it.\<close>

definition counts_step ::
  "'n awk_lang \<Rightarrow> string list \<Rightarrow> (string list \<Rightarrow> string list) \<Rightarrow> string \<times> int \<times> int \<Rightarrow> counts_state
    \<Rightarrow> (string \<times> nat) list \<times> counts_state" where
  "counts_step L args ord ev st =
     (case ev of (line, t, t') \<Rightarrow>
        let key = count_key line;
            counts = bm_insert key (Suc (case bm_get (cs_counts st) key of None \<Rightarrow> 0 | Some c \<Rightarrow> c)) (cs_counts st)
        in if cs_next_emit st \<le> t
           then (map (\<lambda>k. (k, the (bm_get counts k))) (ord (map fst counts)),
                 \<lparr>cs_counts = map (\<lambda>(k, _). (k, 0)) counts, cs_next_emit = t' + al_value L (window_of L args)\<rparr>)
           else ([], st\<lparr>cs_counts := counts\<rparr>))"

fun scope_counts ::
  "'n awk_lang \<Rightarrow> string list \<Rightarrow> (string list \<Rightarrow> string list) \<Rightarrow> (string \<times> int \<times> int) list \<Rightarrow> counts_state
    \<Rightarrow> (string \<times> string \<times> nat) list \<times> counts_state" where
  "scope_counts L args ord [] st = ([], st)"
| "scope_counts L args ord (ev # evs) st =
     (let (now, st') = counts_step L args ord ev st;
          (later, st'') = scope_counts L args ord evs st'
      in (map (\<lambda>kc. (fst ev, kc)) now @ later, st''))"

text \<open>What is printed: one line for each summary.\<close>

definition summary_lines :: "'n awk_lang \<Rightarrow> string list \<Rightarrow> (string \<times> string \<times> nat) list \<Rightarrow> string list" where
  "summary_lines L args out = map (\<lambda>(line, k, c). emit_summary L args line k c) out"

section \<open>Variables arrive\<close>

lemma awk_vars_runner_args:
  "\<forall>e \<in> set tvars. CHR ''='' \<notin> set (fst e) \<Longrightarrow> awk_vars (runner_args script tvars) = tvars"
proof (induction tvars)
  case Nil
  show ?case by (simp add: runner_args_def)
next
  case (Cons e tvars)
  obtain k v where e: "e = (k, v)" by force
  with Cons.prems have "split_once CHR ''='' (k @ ''='' @ v) = Some (k, v)"
    using split_once_append [of "CHR ''=''" k v] by simp
  with Cons e show ?case by (simp add: runner_args_def)
qed

lemma awk_var_runner_args:
  assumes "awk_lang_ok L" and "bm_wf tvars" and "\<forall>e \<in> set tvars. CHR ''='' \<notin> set (fst e)"
    and "bm_get tvars name = Some v" and "CHR 0x5C \<notin> set v"
  shows "awk_var L (runner_args script tvars) name = v"
  using assms
  by (simp add: awk_var_def awk_vars_runner_args map_of_rev_distinct awk_lang_ok_def)

lemma awk_index_1: "awk_index s t = Suc 0 \<longleftrightarrow> prefix t s"
  by (cases s) (simp_all add: Let_def)

section \<open>Filters over printed frames\<close>

lemma records_lines: "LF \<notin> set l \<Longrightarrow> records (l @ LF # s) = l # records s"
  by (simp add: records_def Let_def split_on_append)

lemma records_Nil [simp]: "records [] = []"
  by (simp add: records_def)

lemma records_printed:
  assumes "rfc3339_ok T" and "\<forall>fn \<in> set fs. lf_free (fst fn)"
  shows "records (concat (map (\<lambda>fn. printed T fn @ [LF]) fs)) = map (printed T) fs"
  using assms(2)
proof (induction fs)
  case (Cons fn fs)
  then have "LF \<notin> set (printed T fn)"
    using lf_free_to_tsv_line [OF assms(1), of "fst fn"] by (simp add: printed_def)
  with Cons show ?case by (simp add: records_lines)
qed simp

lemma fld_printed:
  assumes "rfc3339_ok T" and "clean_frame (fst fn)"
  shows "fld 3 (printed T fn) = hf_scope (fst fn)" "fld 4 (printed T fn) = hf_id (fst fn)"
    "fld 5 (printed T fn) = level_as_str (hf_level (fst fn))"
  using split_to_tsv_line [OF assms, of "snd fn"]
  by (simp_all add: fld_def printed_def tsv_columns_def Let_def)

section \<open>Frames through the bridge\<close>

text \<open>The frames of a source with the clock readings at which the bridge prints them.\<close>

definition bridge_input :: "'t hawk_env \<Rightarrow> 't ingest_msg list \<Rightarrow> ('t hawk_frame \<times> 't) list" where
  "bridge_input env source = map fst (writer_events (en_write env) (List.map_filter frame_of_msg source))"

text \<open>Every write to the process succeeds, at a time that can be printed.\<close>

definition bridge_healthy :: "'t time_api \<Rightarrow> 't hawk_env \<Rightarrow> bool" where
  "bridge_healthy T env \<longleftrightarrow>
     (\<forall>i. snd (en_write env i) = WriteOk \<and> format_rfc3339 T (fst (en_write env i)) \<noteq> None)"

definition sound_line :: "'t time_api \<Rightarrow> string \<Rightarrow> bool" where
  "sound_line T l \<longleftrightarrow> one_line l
     \<and> (case parse_tsv_line T l of Inr (Some f) \<Rightarrow> no_ghost_flag (hf_kv f) | _ \<Rightarrow> True)"

definition carried :: "'t time_api \<Rightarrow> 't hawk_frame \<times> 't \<Rightarrow> bool" where
  "carried T fn \<longleftrightarrow> clean_frame (fst fn) \<and> lf_free (fst fn) \<and> no_ghost_flag (hf_kv (fst fn))
     \<and> format_rfc3339 T (stamp (fst fn) (snd fn)) \<noteq> None"

lemma writer_events_ok:
  assumes "bridge_healthy T env"
  shows "writer_events (en_write env) (List.map_filter frame_of_msg source) =
    map (\<lambda>fn. (fn, WriteOk)) (bridge_input env source)"
  using assms by (auto simp: bridge_input_def writer_events_def bridge_healthy_def)

lemma source_frame:
  assumes "f \<in> set (List.map_filter frame_of_msg (stdin_reader T False (map ReadOk ls)))"
  shows "\<exists>l \<in> set ls. parse_tsv_line T l = Ok (Some f)"
proof -
  from assms obtain m l where "l \<in> set ls" "m \<in> set (line_msgs T l)" "frame_of_msg m = Some f"
    by (auto simp: stdin_reader_lines map_filter_def)
  then show ?thesis
    by (auto simp: line_msgs.simps split: sum.splits option.splits)
qed

lemma bridge_input_carried:
  assumes "reformats T" and "bridge_healthy T env" and "list_all (sound_line T) ls"
    and "fn \<in> set (bridge_input env (stdin_reader T False (map ReadOk ls)))"
  shows "carried T fn"
proof -
  let ?frames = "List.map_filter frame_of_msg (stdin_reader T False (map ReadOk ls))"
  from assms(4) obtain i f where i: "(i, f) \<in> set (enumerate 0 ?frames)" and fn: "fn = (f, fst (en_write env i))"
    by (auto simp: bridge_input_def writer_events_def)
  from i have "f \<in> set ?frames" by (metis enumerate_eq_zip set_zip_rightD)
  then obtain l where l: "l \<in> set ls" "parse_tsv_line T l = Ok (Some f)" using source_frame by blast
  with assms(3) have "one_line l" "no_ghost_flag (hf_kv f)"
    by (auto simp: list_all_iff sound_line_def)
  moreover obtain s where "format_rfc3339 T (stamp f (fst (en_write env i))) = Some s"
    using parsed_stamp_formats [OF assms(1) _ l(2)] assms(2) by (fastforce simp: bridge_healthy_def)
  ultimately show ?thesis
    using clean_parsed_frame [OF l(2)] lf_free_parsed [OF l(2)] by (simp add: carried_def fn)
qed

lemma bridge_frames_out: "bridge_frames (map (OutFrame \<circ> g) xs) = map g xs" "bridge_errs (map (OutFrame \<circ> g) xs) = []"
  by (induction xs) (simp_all add: bridge_frames_def bridge_errs_def map_filter_def)

text \<open>The contract of a filter: a record passes unchanged or not at all.\<close>

locale line_filter =
  fixes body :: "string \<Rightarrow> string list" and keep :: "string \<Rightarrow> bool"
  assumes body_keep: "body l = (if keep l then [l] else [])"
begin

lemma run_printed:
  assumes "rfc3339_ok T" and "\<forall>fn \<in> set fs. clean_frame (fst fn) \<and> lf_free (fst fn)"
  shows "lines (awk_run body (concat (map (\<lambda>fn. printed T fn @ [LF]) fs))) =
    map (printed T) (filter (\<lambda>fn. keep (printed T fn)) fs)"
proof -
  have "concat (map (\<lambda>r. concat (map (\<lambda>l. l @ [LF]) (body r))) (map (printed T) fs)) =
      concat (map (\<lambda>fn. printed T fn @ [LF]) (filter (\<lambda>fn. keep (printed T fn)) fs))"
    by (induction fs) (simp_all add: body_keep)
  with assms records_printed [OF assms(1), of fs]
    lines_printed [OF assms(1), of "filter (\<lambda>fn. keep (printed T fn)) fs"]
  show ?thesis by (simp add: awk_run_def)
qed

lemma streams:
  assumes "rfc3339_ok T" and "bridge_healthy T env" and "\<forall>fn \<in> set (bridge_input env source). carried T fn"
    and "\<And>pieces. en_awk env args pieces = map ReadOk (lines (awk_run body (concat pieces)))"
  shows "transform_streams T env args source =
    [filter (\<lambda>m. \<not> is_frame m) source,
     map (Frame \<circ> stamped) (filter (\<lambda>fn. keep (printed T fn)) (bridge_input env source)),
     [], [], map awk_io_error (bridge_waiter (en_wait env))]"
proof -
  let ?fs = "bridge_input env source" and ?kept = "filter (\<lambda>fn. keep (printed T fn)) (bridge_input env source)"
  have w: "bridge_writer T (writer_events (en_write env) (List.map_filter frame_of_msg source)) =
      (map (\<lambda>fn. printed T fn @ [LF]) ?fs, [])"
    by (simp only: writer_events_ok [OF assms(2)] bridge_writer_ok)
  have "en_awk env args (map (\<lambda>fn. printed T fn @ [LF]) ?fs) = map (ReadOk \<circ> printed T) ?kept"
    using run_printed [OF assms(1), of ?fs] assms(3) by (simp add: assms(4) carried_def)
  moreover have "\<forall>fn \<in> set ?kept. clean_frame (fst fn) \<and> no_ghost_flag (hf_kv (fst fn))
      \<and> format_rfc3339 T (stamp (fst fn) (snd fn)) \<noteq> None"
    using assms(3) by (auto simp: carried_def)
  ultimately have "bridge_reader T (en_awk env args (map (\<lambda>fn. printed T fn @ [LF]) ?fs)) = map (OutFrame \<circ> stamped) ?kept"
    using bridge_reader_printed [OF assms(1)] by simp
  then show ?thesis
    by (simp add: transform_streams_def start_bridge_def Let_def w bridge_frames_out)
qed

end

definition fail_only_keeps :: "'n awk_lang \<Rightarrow> string \<Rightarrow> string \<Rightarrow> bool" where
  "fail_only_keeps L scope line \<longleftrightarrow>
     to_ascii_lowercase (fld 5 line) \<in> {''fail'', ''warn''} \<and> (scope = [] \<or> awk_same L (fld 3 line) scope)"

definition systemd_focus_keeps :: "string \<Rightarrow> string \<Rightarrow> bool" where
  "systemd_focus_keeps id_prefix line \<longleftrightarrow> fld 3 line = ''systemd'' \<and> prefix id_prefix (fld 4 line)"

interpretation fo: line_filter "fail_only L args" "fail_only_keeps L (awk_var L args ''scope'')" for L args
  by unfold_locales (simp add: fail_only_def fail_only_keeps_def Let_def)

interpretation sf: line_filter "systemd_focus L args" "systemd_focus_keeps (awk_var L args ''id_prefix'')" for L args
  by unfold_locales (auto simp: systemd_focus_def systemd_focus_keeps_def awk_index_1 Let_def)

section \<open>Counts\<close>

definition pending :: "counts_state \<Rightarrow> string \<Rightarrow> nat" where
  "pending st k = (case bm_get (cs_counts st) k of None \<Rightarrow> 0 | Some c \<Rightarrow> c)"

definition reported :: "(string \<times> string \<times> nat) list \<Rightarrow> string \<Rightarrow> nat" where
  "reported out k = sum_list (map (\<lambda>(_, k', c). if k' = k then c else 0) out)"

lemma reported_append [simp]: "reported (us @ vs) k = reported us k + reported vs k"
  by (simp add: reported_def)

lemma reported_Nil [simp]: "reported [] k = 0"
  by (simp add: reported_def)

lemma sum_list_single:
  "distinct ks \<Longrightarrow> sum_list (map (\<lambda>k'. if k' = k then f k' else 0) ks) = (if k \<in> set ks then f k else (0::nat))"
  by (induction ks) auto

lemma bm_get_zeroed: "bm_get (map (\<lambda>(k, _). (k, 0)) m) k = map_option (\<lambda>_. 0) (bm_get m k)"
  by (induction m) (auto simp: bm_get_def)

lemma bm_wf_zeroed: "bm_wf m \<Longrightarrow> bm_wf (map (\<lambda>(k, _). (k, 0)) m)"
  by (simp add: bm_wf_def comp_def case_prod_beta)

lemma reported_visit:
  assumes "bm_wf m" and "mset (ord (map fst m)) = mset (map fst m)"
  shows "reported (map (\<lambda>kc. (line, kc)) (map (\<lambda>k. (k, the (bm_get m k))) (ord (map fst m)))) k =
    (case bm_get m k of None \<Rightarrow> 0 | Some c \<Rightarrow> c)"
proof -
  have d: "distinct (ord (map fst m))" "set (ord (map fst m)) = fst ` set m"
    using bm.distinct_entries [OF assms(1)] mset_eq_imp_distinct_iff [OF assms(2)] mset_eq_setD [OF assms(2)]
    by simp_all
  have "reported (map (\<lambda>kc. (line, kc)) (map (\<lambda>k. (k, the (bm_get m k))) (ord (map fst m)))) k =
      sum_list (map (\<lambda>k'. if k' = k then the (bm_get m k') else 0) (ord (map fst m)))"
    by (simp add: reported_def comp_def)
  also have "\<dots> = (if k \<in> fst ` set m then the (bm_get m k) else 0)"
    using sum_list_single [OF d(1), of k "\<lambda>k'. the (bm_get m k')"] d(2) by simp
  also have "\<dots> = (case bm_get m k of None \<Rightarrow> 0 | Some c \<Rightarrow> c)"
  proof (cases "k \<in> fst ` set m")
    case False
    then have "map_of m k = None" by (simp add: map_of_eq_None_iff)
    with False show ?thesis by (simp add: bm_get_def)
  next
    case True
    then have "map_of m k \<noteq> None" by (simp add: map_of_eq_None_iff)
    with True show ?thesis by (auto simp: bm_get_def)
  qed
  finally show ?thesis .
qed

lemma counts_step_conserves:
  assumes "\<And>ks. mset (ord ks) = mset ks" and "bm_wf (cs_counts st)"
    and "counts_step L args ord ev st = (out, st')"
  shows "bm_wf (cs_counts st')
    \<and> reported (map (\<lambda>kc. (fst ev, kc)) out) k + pending st' k = pending st k + (if count_key (fst ev) = k then 1 else 0)"
proof -
  obtain line t t' where ev: "ev = (line, t, t')" by (cases ev) auto
  let ?m = "bm_insert (count_key line) (Suc (pending st (count_key line))) (cs_counts st)"
  have wf: "bm_wf ?m" using assms(2) by simp
  have p: "(case bm_get ?m k of None \<Rightarrow> 0 | Some c \<Rightarrow> c) = pending st k + (if count_key line = k then 1 else 0)"
    by (simp add: pending_def)
  show ?thesis
  proof (cases "cs_next_emit st \<le> t")
    case True
    with assms(3) have o: "out = map (\<lambda>k. (k, the (bm_get ?m k))) (ord (map fst ?m))"
      and s: "cs_counts st' = map (\<lambda>(k, _). (k, 0)) ?m"
      by (auto simp: counts_step_def ev Let_def pending_def)
    have "pending st' k = 0" by (auto simp: pending_def s bm_get_zeroed split: option.splits)
    with reported_visit [where ord = ord, OF wf assms(1), of line k] p wf show ?thesis
      unfolding o s by (simp add: ev bm_wf_zeroed)
  next
    case False
    with assms(3) have "out = []" "cs_counts st' = ?m"
      by (auto simp: counts_step_def ev Let_def pending_def)
    with p wf show ?thesis by (simp add: pending_def ev)
  qed
qed

lemma scope_counts_balance:
  assumes "\<And>ks. mset (ord ks) = mset ks" and "bm_wf (cs_counts st)"
    and "scope_counts L args ord evs st = (out, st')"
  shows "reported out k + pending st' k = pending st k + length (filter (\<lambda>ev. count_key (fst ev) = k) evs)"
  using assms(2,3)
proof (induction evs arbitrary: st out)
  case (Cons ev evs)
  obtain now s1 where now: "counts_step L args ord ev st = (now, s1)" by force
  obtain later where later: "scope_counts L args ord evs s1 = (later, st')"
      "out = map (\<lambda>kc. (fst ev, kc)) now @ later"
    using Cons.prems(2) now by (auto simp: Let_def split: prod.splits)
  note step = counts_step_conserves [OF assms(1) Cons.prems(1) now, of k]
  from Cons.IH [OF conjunct1 [OF step] later(1)] step show ?case
    by (cases "count_key (fst ev) = k") (simp_all add: later(2))
qed simp

section \<open>Properties\<close>


text \<open>
  \<open>systemd_focus\<close> through the bridge, in the same way: exactly the frames of scope
  systemd whose id starts with the chosen prefix, all of them when it is empty.
\<close>

theorem systemd_focus_delivers:
  assumes "rfc3339_ok T" and "reformats T" and "awk_lang_ok L" and "bridge_healthy T env"
    and "list_all (sound_line T) ls" and "en_awk env = thread_process (systemd_focus L)"
    and "bm_wf vars" and "list_all (\<lambda>e. CHR ''='' \<notin> set (fst e)) vars"
    and "bm_get vars ''id_prefix'' = Some pre" and "CHR 0x5C \<notin> set pre"
  shows "transform_streams T env (runner_args script vars) (stdin_reader T False (map ReadOk ls)) =
    [filter (\<lambda>m. \<not> is_frame m) (stdin_reader T False (map ReadOk ls)),
     map (Frame \<circ> stamped)
       (filter (\<lambda>fn. hf_scope (fst fn) = ''systemd'' \<and> prefix pre (hf_id (fst fn)))
         (bridge_input env (stdin_reader T False (map ReadOk ls)))),
     [], [], map awk_io_error (bridge_waiter (en_wait env))]"
proof -
  let ?fs = "bridge_input env (stdin_reader T False (map ReadOk ls))"
  have c: "\<forall>fn \<in> set ?fs. carried T fn"
    using bridge_input_carried [OF assms(2,4,5)] by blast
  have v: "awk_var L (runner_args script vars) ''id_prefix'' = pre"
    using assms(8) by (intro awk_var_runner_args [OF assms(3,7) _ assms(9,10)]) (simp add: list_all_iff)
  have "systemd_focus_keeps pre (printed T fn) \<longleftrightarrow>
      hf_scope (fst fn) = ''systemd'' \<and> prefix pre (hf_id (fst fn))" if "fn \<in> set ?fs" for fn
  proof -
    from c that have "clean_frame (fst fn)" by (simp add: carried_def)
    from fld_printed [OF assms(1) this] show ?thesis by (simp only: systemd_focus_keeps_def)
  qed
  then have "filter (\<lambda>fn. systemd_focus_keeps pre (printed T fn)) ?fs =
      filter (\<lambda>fn. hf_scope (fst fn) = ''systemd'' \<and> prefix pre (hf_id (fst fn))) ?fs"
    by (intro filter_cong refl)
  with sf.streams [OF assms(1,4) c, of "runner_args script vars" L] v show ?thesis
    by (simp add: assms(6) thread_process_def)
qed

text \<open>
  C10: \<open>scope_counts\<close> loses and invents no count. Whatever the times of the records and
  the order in which awk visits its array, for every scope and level the counts reported so
  far and the count still held add up to the number of records of that scope and level. What
  is held when the input ends is never reported.
\<close>

theorem scope_counts_conserves:
  assumes "\<And>ks. mset (ord ks) = mset ks"
    and "scope_counts L args ord evs (counts_begin L args start) = (out, st)"
  shows "reported out k + pending st k = length (filter (\<lambda>ev. count_key (fst ev) = k) evs)"
proof -
  have "bm_wf (cs_counts (counts_begin L args start))" "pending (counts_begin L args start) k = 0"
    by (simp_all add: counts_begin_def pending_def)
  with scope_counts_balance [OF assms(1) _ assms(2), of k] show ?thesis by simp
qed

section \<open>Concrete runs\<close>

definition plain_awk :: "int awk_lang" where
  "plain_awk = \<lparr>al_num = parse_i64, al_value = (\<lambda>s. case parse_i64 s of None \<Rightarrow> 0 | Some n \<Rightarrow> n),
     al_unescape = (\<lambda>v. v)\<rparr>"

lemma plain_awk_ok: "awk_lang_ok plain_awk"
  by (simp add: awk_lang_ok_def plain_awk_def)

definition thread_env :: "(string list \<Rightarrow> string \<Rightarrow> string list) \<Rightarrow> int hawk_env" where
  "thread_env prog = \<lparr>en_stdin = [], en_socket = Ok [], en_start = (\<lambda>_. Spawned),
     en_write = (\<lambda>i. (7, WriteOk)), en_awk = thread_process prog, en_wait = Ok (True, ''0'')\<rparr>"

lemma thread_env_healthy: "bridge_healthy dec_time (thread_env prog)"
proof -
  have "format_rfc3339 dec_time 7 \<noteq> None" by code_simp
  then show ?thesis by (simp add: bridge_healthy_def thread_env_def)
qed

definition unit_line :: string where
  "unit_line = join [TAB] [''5'', ''HEALTH'', ''systemd'', ''nginx.service'', ''ok'', ''active:running'', []] @ [LF]"

lemma thread_lines_sound: "list_all (sound_line dec_time) [sample_line, unit_line]"
  by code_simp


theorem systemd_focus_delivers_witness:
  "map length (transform_streams dec_time (thread_env (systemd_focus plain_awk))
     (runner_args ''systemd_focus.awk'' [(''id_prefix'', ''ng'')])
     (stdin_reader dec_time False (map ReadOk [sample_line, unit_line]))) = [0, 1, 0, 0, 0]"
proof -
  let ?env = "thread_env (systemd_focus plain_awk)" and ?vars = "[(''id_prefix'', ''ng'')]"
  have "bm_wf ?vars" "list_all (\<lambda>e. CHR ''='' \<notin> set (fst e)) ?vars" "bm_get ?vars ''id_prefix'' = Some ''ng''"
    "CHR 0x5C \<notin> set ''ng''"
    by code_simp+
  moreover have "en_awk ?env = thread_process (systemd_focus plain_awk)" by (simp add: thread_env_def)
  ultimately have s: "transform_streams dec_time ?env (runner_args ''systemd_focus.awk'' ?vars)
       (stdin_reader dec_time False (map ReadOk [sample_line, unit_line])) =
    [filter (\<lambda>m. \<not> is_frame m) (stdin_reader dec_time False (map ReadOk [sample_line, unit_line])),
     map (Frame \<circ> stamped)
       (filter (\<lambda>fn. hf_scope (fst fn) = ''systemd'' \<and> prefix ''ng'' (hf_id (fst fn)))
         (bridge_input ?env (stdin_reader dec_time False (map ReadOk [sample_line, unit_line])))),
     [], [], map awk_io_error (bridge_waiter (en_wait ?env))]"
    by (intro systemd_focus_delivers [OF dec_time_ok reformats_dec_time plain_awk_ok thread_env_healthy thread_lines_sound])
  show ?thesis unfolding s by code_simp
qed

definition window_events :: "(string \<times> int \<times> int) list" where
  "window_events = [(sample_line, 1, 1), (sample_line, 2, 2), (unit_line, 12, 12), (sample_line, 13, 13)]"

lemma window_counts:
  "scope_counts plain_awk [] (\<lambda>ks. ks) window_events (counts_begin plain_awk [] 0) =
     ([(unit_line, '' service |warning'', 2), (unit_line, ''systemd|ok'', 1)],
      \<lparr>cs_counts = [('' service |warning'', 1), (''systemd|ok'', 0)], cs_next_emit = 22\<rparr>)"
  by code_simp

theorem scope_counts_conserves_witness:
  "reported [(unit_line, '' service |warning'', 2), (unit_line, ''systemd|ok'', 1)] '' service |warning''
   + pending \<lparr>cs_counts = [('' service |warning'', 1), (''systemd|ok'', 0)], cs_next_emit = 22\<rparr> '' service |warning'' =
   length (filter (\<lambda>ev. count_key (fst ev) = '' service |warning'') window_events)"
  by (rule scope_counts_conserves [OF refl window_counts])

text \<open>
  The summaries of one window are frames of one entity: the mirror files each of them under
  the same key, so its table shows the last one only.
\<close>

lemma fld_TAB: "TAB \<notin> set (fld n line)"
  using split_on_pieces(1) [of "fld n line" TAB line] by (auto simp: fld_def Let_def)

lemma summary_fields:
  "fld 3 (emit_summary L args line k c) = ''awk''" "fld 4 (emit_summary L args line k c) = ''scope_counts''"
proof -
  obtain ts kv where e: "emit_summary L args line k c =
      join [TAB] ([ts, ''RECEIPT_EVENT'', ''awk'', ''scope_counts'', ''info'', ''count''] @ [kv])" and ts: "TAB \<notin> set ts"
    using fld_TAB [of 1 line] by (auto simp: emit_summary_def Let_def simp del: join.simps split: if_splits)
  have "split_on TAB (emit_summary L args line k c) =
      [ts, ''RECEIPT_EVENT'', ''awk'', ''scope_counts'', ''info'', ''count''] @ split_on TAB kv"
    unfolding e using ts by (intro split_on_join_front) simp
  then show "fld 3 (emit_summary L args line k c) = ''awk''" "fld 4 (emit_summary L args line k c) = ''scope_counts''"
    by (simp_all add: fld_def)
qed

text \<open>A scope that looks like a number also passes frames whose scope has the same value.\<close>

lemma fail_only_numeric_scope:
  "fail_only plain_awk (runner_args ''f'' [(''scope'', ''7'')])
     (join [TAB] [[], ''HEALTH'', ''+07'', ''a'', ''fail'', [], []]) \<noteq> []"
  by code_simp

end
