(* ===== verification/Hawk_Cmd.thy ===== *)
theory Hawk_Cmd
  imports Hawk_Dash Awk_Threads
begin

text \<open>
  The commands behind the dashboard: \<open>bin/hawk-cmd\<close>, the awk programs under
  \<open>awk/commands\<close> and the shell scripts under \<open>adapters\<close>. A file is its text or
  missing; the answers of \<open>systemctl\<close> and \<open>grpcurl\<close> are data of the model. The result
  of a command is what it prints and its exit status.
\<close>

record cmd_result =
  rs_out :: string
  rs_err :: string
  rs_code :: int

definition print_lines :: "string list \<Rightarrow> string" where
  "print_lines ls = concat (map (\<lambda>l. l @ [LF]) ls)"

section \<open>The awk programs\<close>

definition cmd_catalog :: "string list" where
  "cmd_catalog =
     [''grpc_health|gRPC Health|adapter+awk|Probe endpoints and normalize SERVING status'',
      ''stream_lag|Stream Lag|awk|Summarize per-stream lag from timestamped events'',
      ''tail_errors|Tail Errors|awk|Count ERROR/WARN/INFO in recent log lines'',
      ''daemon_status|Daemon Status|adapter|Inspect systemd active state for unit list'']"

text \<open>
  What the programs use of the awk that is installed: the value of a text as a number, a
  number printed with \<open>%s\<close> and with \<open>%d\<close>, and \<open>toupper\<close>, which depends on the
  locale beyond ASCII.
\<close>

record 'v awk_lib =
  ab_value :: "string \<Rightarrow> 'v"
  ab_text :: "'v \<Rightarrow> string"
  ab_whole :: "'v \<Rightarrow> string"
  ab_upper :: "string \<Rightarrow> string"

definition grpc_health_awk :: "'v awk_lib \<Rightarrow> string \<Rightarrow> string list" where
  "grpc_health_awk L line =
     (if 4 \<le> length (split_on TAB line)
      then [join [TAB] [fld 1 line, ab_upper L (fld 2 line), fld 3 line, fld 4 line]] else [])"

definition count_lines :: "'v awk_lib \<Rightarrow> string \<Rightarrow> string list \<Rightarrow> nat" where
  "count_lines L word ls = length (filter (\<lambda>l. contains word (ab_upper L l)) ls)"

definition tail_errors_awk :: "'v awk_lib \<Rightarrow> string list \<Rightarrow> string list" where
  "tail_errors_awk L ls =
     map (\<lambda>word. word @ [TAB] @ to_dec (int (count_lines L word ls))) [''ERROR'', ''WARN'', ''INFO'']"

text \<open>
  \<open>stream_lag.awk\<close>: the newest time and the number of events of each stream. The test
  \<open>ts > latest[stream]\<close> makes the entry, with the value zero, if there is none.
\<close>

record 'v lag_state =
  lg_latest :: "(string, 'v) btree_map"
  lg_count :: "(string, nat) btree_map"

definition bar_fields :: "string \<Rightarrow> string list" where
  "bar_fields line = split_on CHR ''|'' line"

definition lag_record :: "'v::{zero,ord} awk_lib \<Rightarrow> string \<Rightarrow> 'v lag_state \<Rightarrow> 'v lag_state" where
  "lag_record L line st =
     (if length (bar_fields line) < 2 then st
      else
        let ts = ab_value L (bar_fields line ! 0); stream = bar_fields line ! 1;
            old = (case bm_get (lg_latest st) stream of None \<Rightarrow> 0 | Some t \<Rightarrow> t);
            n = (case bm_get (lg_count st) stream of None \<Rightarrow> 0 | Some k \<Rightarrow> k)
        in \<lparr>lg_latest = bm_insert stream (if old < ts then ts else old) (lg_latest st),
            lg_count = bm_insert stream (Suc n) (lg_count st)\<rparr>)"

definition lag_line :: "'v::{zero,ord,minus} awk_lib \<Rightarrow> 'v \<Rightarrow> 'v lag_state \<Rightarrow> string \<Rightarrow> string" where
  "lag_line L now st s =
     (let latest = the (bm_get (lg_latest st) s); lag = (if now - latest < 0 then 0 else now - latest)
      in s @ [TAB] @ ''lag='' @ ab_text L lag @ ''s'' @ [TAB] @ ''events='' @ to_dec (int (the (bm_get (lg_count st) s)))
         @ [TAB] @ ''last_epoch='' @ ab_whole L latest)"

definition stream_lag_awk ::
  "'v::{zero,ord,minus} awk_lib \<Rightarrow> (string list \<Rightarrow> string list) \<Rightarrow> 'v \<Rightarrow> string list \<Rightarrow> string list" where
  "stream_lag_awk L ord now ls =
     (let st = fold (lag_record L) ls \<lparr>lg_latest = [], lg_count = []\<rparr> in
      if lg_latest st = []
      then [''stream'' @ [TAB] @ ''lag=n/a'' @ [TAB] @ ''events=0'' @ [TAB] @ ''last_epoch=0'']
      else map (lag_line L now st) (ord (map fst (lg_latest st))))"

section \<open>The adapters\<close>

text \<open>\<open>while read -r line\<close>: the terminated lines; a last line without a newline is lost.\<close>

definition read_loop :: "string \<Rightarrow> string list" where
  "read_loop s = butlast (split_on LF s)"

definition targets :: "string \<Rightarrow> string list" where
  "targets s = filter (\<lambda>l. l \<noteq> [] \<and> \<not> prefix ''#'' l) (read_loop s)"

datatype probe = Unreachable | Answered bool

text \<open>The files and answers \<open>grpc_health.sh\<close> works on; a file that is not there is
  \<open>None\<close>, and so is \<open>gw_probe\<close> when \<open>grpcurl\<close> is not installed. For an endpoint
  it is what the probe found (\<open>Answered\<close> whether the answer has the status \<open>SERVING\<close>) and
  the milliseconds it took.\<close>

record grpc_world =
  gw_targets :: "string option"
  gw_fake :: "string option"
  gw_probe :: "(string \<Rightarrow> probe \<times> int) option"

definition latest_lines :: "string list \<Rightarrow> (string, string) btree_map" where
  "latest_lines ls =
     fold (\<lambda>l m. if 4 \<le> length (split_on TAB l) then bm_insert (fld 1 l) l m else m) ls []"

definition emit_from_fake :: "(string list \<Rightarrow> string list) \<Rightarrow> string \<Rightarrow> string list" where
  "emit_from_fake ord s =
     (let m = latest_lines (records s) in map (\<lambda>e. the (bm_get m e)) (ord (map fst m)))"

definition probe_line :: "(string \<Rightarrow> probe \<times> int) \<Rightarrow> string \<Rightarrow> string" where
  "probe_line answer e =
     (case answer e of (p, t) \<Rightarrow>
        join [TAB] [e, (case p of Unreachable \<Rightarrow> ''UNREACHABLE''
                                | Answered ok \<Rightarrow> if ok then ''SERVING'' else ''NOT_SERVING''),
                    i64_to_string t @ ''ms'', ''grpcurl''])"

definition grpc_adapter :: "(string list \<Rightarrow> string list) \<Rightarrow> grpc_world \<Rightarrow> cmd_result" where
  "grpc_adapter ord W =
     (case gw_fake W of
        Some s \<Rightarrow> \<lparr>rs_out = print_lines (emit_from_fake ord s), rs_err = [], rs_code = 0\<rparr>
      | None \<Rightarrow>
          (case gw_targets W of
             None \<Rightarrow> \<lparr>rs_out = [], rs_err = [], rs_code = 1\<rparr>
           | Some s \<Rightarrow>
               \<lparr>rs_out = print_lines (case gw_probe W of
                    Some answer \<Rightarrow> map (probe_line answer) (targets s)
                  | None \<Rightarrow> map (\<lambda>e. join [TAB] [e, ''UNKNOWN'', ''0ms'', ''fallback'']) (targets s)),
                rs_err = [], rs_code = 0\<rparr>))"

text \<open>\<open>systemd_status.sh\<close>: the answers of \<open>is-active\<close> in the system and in the user scope.\<close>

record unit_world =
  uw_units :: "string option"
  uw_systemctl :: "(string \<Rightarrow> string \<times> string) option"

definition unit_status :: "unit_world \<Rightarrow> string \<Rightarrow> string \<times> string" where
  "unit_status W u =
     (case uw_systemctl W of
        None \<Rightarrow> (''unavailable'', ''none'')
      | Some ask \<Rightarrow>
          (let (status, scope) = (if fst (ask u) = [] \<or> fst (ask u) = ''unknown''
                                  then (snd (ask u), ''user'') else (fst (ask u), ''sys''))
           in (if status = [] then ''unknown'' else status, scope)))"

definition systemd_adapter :: "unit_world \<Rightarrow> cmd_result" where
  "systemd_adapter W =
     (case uw_units W of
        None \<Rightarrow> \<lparr>rs_out = [], rs_err = [], rs_code = 0\<rparr>
      | Some s \<Rightarrow>
          \<lparr>rs_out = print_lines (map (\<lambda>u. case unit_status W u of (status, scope) \<Rightarrow> join [TAB] [u, status, scope]) (targets s)),
           rs_err = [], rs_code = 0\<rparr>)"

text \<open>
  \<open>daemon_ctl.sh\<close>: when \<open>systemctl\<close> is installed, whether a call succeeds and what it
  prints; the flag is set for the user scope (\<open>--user\<close>).
\<close>

record ctl_world =
  cw_do :: "(bool \<Rightarrow> string \<Rightarrow> string \<Rightarrow> bool \<times> string) option"

definition daemon_ctl :: "ctl_world \<Rightarrow> string \<Rightarrow> string \<Rightarrow> cmd_result" where
  "daemon_ctl W action un =
     (let ok = (\<lambda>out code. \<lparr>rs_out = out, rs_err = [], rs_code = code\<rparr>);
          un = (if un = [] then ''hawk-agent.service'' else un)
      in if action = [] then ok (print_lines [''missing action'']) 2
         else if action = ''health'' \<or> action = ''status'' then
           (case cw_do W of
              None \<Rightarrow> ok (print_lines [''systemctl not found'']) 0
            | Some call \<Rightarrow>
                ok (snd (call False ''status'' un)
                    @ (if fst (call False ''status'' un) then [] else snd (call True ''status'' un))) 0)
         else
           (case cw_do W of
              None \<Rightarrow> ok (print_lines [''unable to '' @ action @ '' '' @ un]) 1
            | Some call \<Rightarrow>
                if fst (call False action un)
                then ok (snd (call False action un) @ print_lines [''system scope ok'']) 0
                else if fst (call True action un)
                then ok (snd (call False action un) @ snd (call True action un) @ print_lines [''user scope ok'']) 0
                else ok (snd (call False action un) @ snd (call True action un)
                         @ print_lines [''unable to '' @ action @ '' '' @ un]) 1))"

section \<open>hawk-cmd\<close>

text \<open>
  The files are those that the environment names; \<open>cw_tail_lines\<close> is \<open>HAWK_TAIL_LINES\<close>,
  a plain count, and \<open>cw_ord\<close> the order in which awk visits the keys of an array.
\<close>

record 'v cmd_world =
  cw_lib :: "'v awk_lib"
  cw_ord :: "string list \<Rightarrow> string list"
  cw_now :: 'v
  cw_stream_file :: "string option"
  cw_log_file :: "string option"
  cw_tail_lines :: nat
  cw_grpc :: grpc_world
  cw_units :: unit_world

text \<open>\<open>echo\<close> of bash leaves the backslash and the letter.\<close>

definition echo_tabs :: "string list \<Rightarrow> string" where
  "echo_tabs ps = join [CHR 0x5C, CHR ''t''] ps"

definition cmd_run :: "'v::{zero,ord,minus} cmd_world \<Rightarrow> string \<Rightarrow> cmd_result" where
  "cmd_run W i =
     (let ok = (\<lambda>ls. \<lparr>rs_out = print_lines ls, rs_err = [], rs_code = 0\<rparr>) in
      if i = ''grpc_health'' then
        (let r = grpc_adapter (cw_ord W) (cw_grpc W)
         in r\<lparr>rs_out := print_lines (concat (map (grpc_health_awk (cw_lib W)) (records (rs_out r))))\<rparr>)
      else if i = ''stream_lag'' then
        ok (case cw_stream_file W of
              Some s \<Rightarrow> stream_lag_awk (cw_lib W) (cw_ord W) (cw_now W) (records s)
            | None \<Rightarrow> [echo_tabs [''stream'', ''lag=n/a'', ''events=0'', ''last_epoch=0'']])
      else if i = ''tail_errors'' then
        ok (case cw_log_file W of
              Some s \<Rightarrow> tail_errors_awk (cw_lib W) (last_n (cw_tail_lines W) (records s))
            | None \<Rightarrow> map (\<lambda>w. echo_tabs [w, ''0'']) [''ERROR'', ''WARN'', ''INFO''])
      else if i = ''daemon_status'' then systemd_adapter (cw_units W)
      else \<lparr>rs_out = [], rs_err = print_lines [''unknown command id: '' @ i], rs_code = 2\<rparr>)"

definition hawk_cmd :: "'v::{zero,ord,minus} cmd_world \<Rightarrow> string list \<Rightarrow> cmd_result" where
  "hawk_cmd W args =
     (let sub = (case args of [] \<Rightarrow> [] | s # _ \<Rightarrow> s) in
      if sub = ''list'' then \<lparr>rs_out = print_lines cmd_catalog, rs_err = [], rs_code = 0\<rparr>
      else if sub = ''run'' then cmd_run W (case args of _ # i # _ \<Rightarrow> i | _ \<Rightarrow> [])
      else \<lparr>rs_out = print_lines [''hawk-cmd usage:'', ''  hawk-cmd list'', ''  hawk-cmd run <command_id>''],
            rs_err = [], rs_code = 1\<rparr>)"

section \<open>Lines printed by one process and read by another\<close>

text \<open>A word of printable ASCII, which no process strips or splits.\<close>

definition token_char :: "char \<Rightarrow> bool" where
  "token_char c \<longleftrightarrow> (let n = of_char c :: nat in 33 \<le> n \<and> n \<le> 126)"

definition token :: "string \<Rightarrow> bool" where
  "token s \<longleftrightarrow> s \<noteq> [] \<and> list_all token_char s"

definition shown_line :: "string \<Rightarrow> bool" where
  "shown_line l \<longleftrightarrow> l \<noteq> [] \<and> token_char (hd l) \<and> token_char (last l) \<and> list_all (\<lambda>c. token_char c \<or> c = TAB \<or> c = CHR '' '') l"

lemma token_char_not:
  "token_char c \<Longrightarrow> c \<noteq> TAB \<and> c \<noteq> LF"
  by (auto simp: token_char_def)

lemma token_no_strip: "token_char c \<Longrightarrow> w \<in> set py_space \<Longrightarrow> \<not> prefix w (c # s)"
  by (auto simp: py_space_def white_space_def token_char_def)

lemma token_no_rstrip: "token_char c \<Longrightarrow> w \<in> set (map rev py_space) \<Longrightarrow> \<not> prefix w (c # s)"
  by (auto simp: py_space_def white_space_def token_char_def)

lemma strip_pre_token:
  "token_char c \<Longrightarrow> strip_pre py_space (c # s) = c # s"
  "token_char c \<Longrightarrow> strip_pre (map rev py_space) (c # s) = c # s"
  using token_no_strip token_no_rstrip by (auto intro!: strip_pre_None)

lemma py_strip_id:
  assumes "token_char (hd s)" and "token_char (last s)" and "s \<noteq> []"
  shows "py_strip s = s"
proof -
  have "strip_pre py_space s = s"
    using strip_pre_token(1) [OF assms(1), of "tl s"] assms(3) by simp
  moreover have "strip_pre (map rev py_space) (rev s) = rev s"
    using strip_pre_token(2) [OF assms(2), of "rev (butlast s)"] assms(3)
      append_butlast_last_id [OF assms(3)] by (metis rev_eq_Cons_iff rev_rev_ident)
  ultimately show ?thesis by (simp add: py_strip_def)
qed

lemma py_strip_token [simp]: "token s \<Longrightarrow> py_strip s = s"
  by (rule py_strip_id) (auto simp: token_def list_all_iff)

lemma py_strip_newline:
  assumes "token_char (hd s)" and "token_char (last s)" and "s \<noteq> []"
  shows "py_strip (s @ [LF]) = s"
proof -
  have "strip_pre py_space (s @ [LF]) = s @ [LF]"
    using strip_pre_token(1) [OF assms(1), of "tl s @ [LF]"] assms(3) by (cases s) simp_all
  moreover have "strip_pre (map rev py_space) (LF # rev s) = strip_pre (map rev py_space) (rev s)"
    by (subst strip_pre.simps) (simp add: py_space_def white_space_def)
  moreover have "strip_pre (map rev py_space) (rev s) = rev s"
    using strip_pre_token(2) [OF assms(2), of "rev (butlast s)"] assms(3)
      append_butlast_last_id [OF assms(3)] by (metis rev_eq_Cons_iff rev_rev_ident)
  ultimately show ?thesis by (simp add: py_strip_def)
qed

lemma line_break_first: "w \<in> set line_breaks \<Longrightarrow> hd w \<in> {CR, LF, CHR 0x0B, CHR 0x0C, CHR 0x1C, CHR 0x1D, CHR 0x1E, CHR 0xC2, CHR 0xE2}"
  by (auto simp: line_breaks_def)

lemma not_line_break:
  assumes "token_char x \<or> x = TAB \<or> x = CHR '' ''"
  shows "splitlines_from acc (x # s) = splitlines_from (x # acc) s"
proof -
  have "x \<notin> {CR, LF, CHR 0x0B, CHR 0x0C, CHR 0x1C, CHR 0x1D, CHR 0x1E, CHR 0xC2, CHR 0xE2}"
    using assms by (auto simp: token_char_def)
  then have "find (\<lambda>w. w \<noteq> [] \<and> prefix w (x # s)) line_breaks = None"
    using line_break_first unfolding find_None_iff by (metis list.sel(1) prefix_Cons)
  then show ?thesis by simp
qed

lemma splitlines_plain:
  "list_all (\<lambda>c. token_char c \<or> c = TAB \<or> c = CHR '' '') l \<Longrightarrow>
   splitlines_from acc (l @ t) = splitlines_from (rev l @ acc) t"
  by (induction l arbitrary: acc) (simp_all add: not_line_break del: splitlines_from.simps(2))

lemma splitlines_newline: "splitlines_from acc (LF # t) = rev acc # splitlines_from [] t"
  by (simp add: line_breaks_def)

lemma splitlines_join:
  "list_all shown_line ls \<Longrightarrow> splitlines (join [LF] ls) = ls"
proof (induction ls rule: induct_list012)
  case (2 l)
  then show ?case using splitlines_plain [of l "[]" "[]"] by (simp add: splitlines_def shown_line_def)
next
  case (3 l m ls)
  then have "splitlines_from [] (l @ LF # join [LF] (m # ls)) = l # splitlines_from [] (join [LF] (m # ls))"
    by (simp add: splitlines_plain splitlines_newline shown_line_def del: splitlines_from.simps(2))
  with 3 show ?case by (simp add: splitlines_def)
qed (simp add: splitlines_def)

lemma print_lines_join: "ls \<noteq> [] \<Longrightarrow> print_lines ls = join [LF] ls @ [LF]"
  by (induction ls rule: induct_list012) (simp_all add: print_lines_def)

lemma join_ends:
  assumes "list_all shown_line ls" and "ls \<noteq> []"
  shows "join [LF] ls \<noteq> [] \<and> hd (join [LF] ls) = hd (hd ls) \<and> last (join [LF] ls) = last (last ls)"
  using assms
proof (induction ls rule: induct_list012)
  case (3 l m ls)
  then have "join [LF] (m # ls) \<noteq> []" by simp
  with 3 show ?case by (simp add: shown_line_def)
qed (simp_all add: shown_line_def)

text \<open>The dashboard's way of reading gets back the lines a command printed.\<close>

lemma read_printed:
  assumes "list_all shown_line ls"
  shows "splitlines (py_strip (print_lines ls)) = ls" "py_strip (print_lines ls) = [] \<longleftrightarrow> ls = []"
proof -
  have "py_strip (print_lines ls) = join [LF] ls"
  proof (cases "ls = []")
    case True
    then show ?thesis by (simp add: print_lines_def py_strip_def strip_pre_None)
  next
    case False
    with assms have "shown_line (hd ls)" "shown_line (last ls)" by (simp_all add: list_all_iff)
    with join_ends [OF assms False] show ?thesis
      by (simp add: print_lines_join [OF False] py_strip_newline shown_line_def)
  qed
  with assms show "splitlines (py_strip (print_lines ls)) = ls"
    "py_strip (print_lines ls) = [] \<longleftrightarrow> ls = []"
    using splitlines_join [OF assms] join_ends [OF assms] by auto
qed

lemma records_print_lines: "\<forall>l \<in> set ls. LF \<notin> set l \<Longrightarrow> records (print_lines ls) = ls"
  by (induction ls) (simp_all add: print_lines_def records_lines)

section \<open>The health of the endpoints, from the file to the dashboard\<close>

text \<open>Both \<open>toupper\<close> of awk and \<open>str.upper\<close> of Python raise ASCII letters.\<close>

definition ascii_upper :: "char \<Rightarrow> char" where
  "ascii_upper c = (let n = of_char c :: nat in if 97 \<le> n \<and> n \<le> 122 then char_of (n - 32) else c)"

definition upper_ok :: "(string \<Rightarrow> string) \<Rightarrow> bool" where
  "upper_ok up \<longleftrightarrow> (\<forall>s. list_all token_char s \<longrightarrow> up s = map ascii_upper s)"

definition health_line :: "string \<Rightarrow> bool" where
  "health_line l \<longleftrightarrow> length (split_on TAB l) = 4 \<and> list_all token (split_on TAB l)"

definition health_row :: "string \<Rightarrow> grpc_row" where
  "health_row l =
     \<lparr>gr_endpoint = fld 1 l, gr_status = map ascii_upper (fld 2 l), gr_latency = fld 3 l, gr_source = fld 4 l\<rparr>"

text \<open>The lines of the file that no later line of the same endpoint replaces.\<close>

fun newest :: "string list \<Rightarrow> string list" where
  "newest [] = []"
| "newest (l # ls) = (if fld 1 l \<in> fld 1 ` set ls then newest ls else l # newest ls)"

lemma ascii_upper_token: "token_char c \<Longrightarrow> token_char (ascii_upper c)"
  by (auto simp: token_char_def ascii_upper_def Let_def)

lemma ascii_upper_idem [simp]: "ascii_upper (ascii_upper c) = ascii_upper c"
  by (auto simp: ascii_upper_def Let_def)

lemma token_upper: "token s \<Longrightarrow> token (map ascii_upper s)"
  by (auto simp: token_def list_all_iff intro: ascii_upper_token)

lemma four_fields:
  assumes "length (split_on TAB l) = 4"
  shows "split_on TAB l = [fld 1 l, fld 2 l, fld 3 l, fld 4 l]"
  using assms by (auto simp: fld_def Let_def intro!: nth_equalityI simp: less_Suc_eq numeral_eq_Suc)

lemma health_line_fields:
  assumes "health_line l"
  shows "split_on TAB l = [fld 1 l, fld 2 l, fld 3 l, fld 4 l]"
    "token (fld 1 l)" "token (fld 2 l)" "token (fld 3 l)" "token (fld 4 l)"
proof -
  show f: "split_on TAB l = [fld 1 l, fld 2 l, fld 3 l, fld 4 l]"
    using assms unfolding health_line_def by (intro four_fields) simp
  have "list_all token [fld 1 l, fld 2 l, fld 3 l, fld 4 l]"
    using assms unfolding health_line_def f [symmetric] by (rule conjunct2)
  then show "token (fld 1 l)" "token (fld 2 l)" "token (fld 3 l)" "token (fld 4 l)" by simp_all
qed

lemma token_parts_line:
  assumes "list_all token ps" and "ps \<noteq> []"
  shows "shown_line (join [TAB] ps)" "split_on TAB (join [TAB] ps) = ps"
proof -
  show "split_on TAB (join [TAB] ps) = ps"
    using assms token_char_not by (intro split_on_join) (auto simp: token_def list_all_iff)
  show "shown_line (join [TAB] ps)"
    using assms
  proof (induction ps rule: induct_list012)
    case (3 p q ps)
    then have "shown_line (join [TAB] (q # ps))" by simp
    with 3 show ?case by (auto simp: shown_line_def token_def list_all_iff)
  qed (simp_all add: shown_line_def token_def list_all_iff)
qed

lemma shown_line_LF: "shown_line l \<Longrightarrow> LF \<notin> set l"
  by (auto simp: shown_line_def list_all_iff token_char_def)

lemma health_awk_line:
  assumes "upper_ok (ab_upper L)" and "health_line l"
  shows "grpc_health_awk L l = [join [TAB] [fld 1 l, map ascii_upper (fld 2 l), fld 3 l, fld 4 l]]"
  using assms(1) health_line_fields [OF assms(2)] unfolding grpc_health_awk_def upper_ok_def token_def by simp

lemma newest_subset: "set (newest ls) \<subseteq> set ls"
  by (induction ls) auto

lemma newest_distinct: "distinct (map (fld 1) (newest ls))"
proof (induction ls)
  case (Cons a ls)
  then show ?case using newest_subset [of ls] by (auto simp del: One_nat_def)
qed simp

lemma newest_lookup:
  "l \<in> set (newest ls) \<longleftrightarrow> map_of (rev (map (\<lambda>l. (fld 1 l, l)) ls)) (fld 1 l) = Some l"
proof (induction ls)
  case (Cons a ls)
  have d: "fld 1 l \<in> fld 1 ` set ls \<longleftrightarrow> map_of (rev (map (\<lambda>l. (fld 1 l, l)) ls)) (fld 1 l) \<noteq> None"
    by (force simp: map_of_eq_None_iff)
  show ?case
  proof (cases "fld 1 a = fld 1 l \<and> fld 1 l \<notin> fld 1 ` set ls")
    case True
    then have "l \<notin> set (newest ls)" using newest_subset by blast
    with True d show ?thesis by (auto simp: map_add_def)
  next
    case False
    then show ?thesis using Cons.IH d newest_subset by (auto simp: map_add_def split: option.splits)
  qed
qed simp

lemma latest_lines_lookup:
  assumes "list_all health_line ls"
  shows "bm_wf (latest_lines ls)"
    "bm_get (latest_lines ls) e = map_of (rev (map (\<lambda>l. (fld 1 l, l)) ls)) e"
proof -
  have "fold (\<lambda>l m. if 4 \<le> length (split_on TAB l) then bm_insert (fld 1 l) l m else m) ls m =
      bm.insert_all (map (\<lambda>l. (fld 1 l, l)) ls) m" for m
    using assms by (induction ls arbitrary: m) (simp_all add: bm.insert_all_def health_line_def)
  then have eq: "latest_lines ls = bm.insert_all (map (\<lambda>l. (fld 1 l, l)) ls) []"
    by (simp add: latest_lines_def)
  show "bm_wf (latest_lines ls)" unfolding eq by (rule bm.wf_insert_all) simp
  show "bm_get (latest_lines ls) e = map_of (rev (map (\<lambda>l. (fld 1 l, l)) ls)) e"
    unfolding eq by (simp add: bm.get_insert_all bm.get_emp split: option.splits)
qed

lemma latest_lines_key:
  assumes "list_all health_line ls" and "(e, l) \<in> set (latest_lines ls)"
  shows "fld 1 l = e \<and> l \<in> set (newest ls)"
proof -
  have "bm_get (latest_lines ls) e = Some l"
    using assms(2) bm.distinct_entries [OF latest_lines_lookup(1) [OF assms(1)]] by (simp add: bm_get_def)
  then have m: "map_of (rev (map (\<lambda>l. (fld 1 l, l)) ls)) e = Some l"
    by (simp add: latest_lines_lookup(2) [OF assms(1)])
  from map_of_SomeD [OF this] have "fld 1 l = e" by auto
  with m show ?thesis by (simp add: newest_lookup)
qed

lemma newest_entry:
  assumes "list_all health_line ls" and "l \<in> set (newest ls)"
  shows "(fld 1 l, l) \<in> set (latest_lines ls)"
proof -
  have "bm_get (latest_lines ls) (fld 1 l) = Some l"
    using assms(2) by (simp add: newest_lookup latest_lines_lookup(2) [OF assms(1)])
  then show ?thesis by (auto simp: bm_get_def dest: map_of_SomeD)
qed

text \<open>The adapter prints, in some order, the newest line of every endpoint.\<close>

lemma emit_from_fake_newest:
  assumes "\<And>ks. mset (ord ks) = mset ks" and "list_all health_line (records s)"
  shows "mset (emit_from_fake ord s) = mset (newest (records s))"
proof -
  define m where "m = latest_lines (records s)"
  have d: "distinct (map fst m)"
    unfolding m_def by (rule bm.distinct_entries) (rule latest_lines_lookup(1) [OF assms(2)])
  have "map (\<lambda>e. the (bm_get m e)) (map fst m) = map snd m"
    using d by (auto simp: bm_get_def)
  moreover have "mset (map (\<lambda>e. the (bm_get m e)) (ord (map fst m))) = mset (map (\<lambda>e. the (bm_get m e)) (map fst m))"
    using assms(1) [of "map fst m"] by (metis mset_map)
  ultimately have "mset (emit_from_fake ord s) = mset (map snd m)"
    by (simp only: emit_from_fake_def m_def [symmetric] Let_def)
  moreover have "distinct (map snd m)"
    using d unfolding m_def distinct_map inj_on_def
    by (metis latest_lines_key [OF assms(2)] prod.collapse)
  moreover have "distinct (newest (records s))"
    using newest_distinct [of "records s"] by (simp add: distinct_map)
  moreover have "set (map snd m) = set (newest (records s))"
    using latest_lines_key [OF assms(2)] newest_entry [OF assms(2)] unfolding m_def by force
  ultimately show ?thesis using set_eq_iff_mset_eq_distinct [of "map snd m" "newest (records s)"] by metis
qed

text \<open>What the dashboard runs as \<open>bin/hawk-cmd\<close> is the launcher.\<close>

definition runs_cmd :: "hawk_config \<Rightarrow> dash_answers \<Rightarrow> 'v::{zero,ord,minus} cmd_world \<Rightarrow> bool" where
  "runs_cmd cfg an W \<longleftrightarrow>
     (\<forall>args. an_run an (cf_bin cfg # args) =
        (let r = hawk_cmd W args in Completed (rs_code r) (rs_out r) (rs_err r)))"

lemma run_capture_cmd:
  "runs_cmd cfg an W \<Longrightarrow>
   run_capture an (cf_bin cfg # args) =
     (rs_code (hawk_cmd W args), py_strip (rs_out (hawk_cmd W args) @ rs_err (hawk_cmd W args)))"
  by (simp add: runs_cmd_def run_capture_def Let_def)

lemma cmd_grpc_health:
  assumes "gw_fake (cw_grpc W) = Some s" and "\<And>ks. mset (cw_ord W ks) = mset ks"
    and "list_all health_line (records s)" and "upper_ok (ab_upper (cw_lib W))"
  defines "ls \<equiv> emit_from_fake (cw_ord W) s"
  shows "list_all health_line ls"
    "hawk_cmd W [''run'', ''grpc_health''] =
       \<lparr>rs_out = print_lines (map (\<lambda>l. join [TAB] [fld 1 l, map ascii_upper (fld 2 l), fld 3 l, fld 4 l]) ls),
        rs_err = [], rs_code = 0\<rparr>"
proof -
  have "set ls \<subseteq> set (records s)"
    using mset_eq_setD [OF emit_from_fake_newest [OF assms(2,3)]] newest_subset unfolding ls_def by blast
  then show h: "list_all health_line ls" using assms(3) by (auto simp: list_all_iff)
  have "records (print_lines ls) = ls"
  proof (rule records_print_lines, intro ballI)
    fix l assume "l \<in> set ls"
    then have "list_all token (split_on TAB l)" using h by (simp add: list_all_iff health_line_def)
    then show "LF \<notin> set l"
      using shown_line_LF [OF token_parts_line(1), of "split_on TAB l"] by (simp add: join_split_on)
  qed
  moreover have "concat (map (grpc_health_awk (cw_lib W)) ls) =
      map (\<lambda>l. join [TAB] [fld 1 l, map ascii_upper (fld 2 l), fld 3 l, fld 4 l]) ls"
    using h by (induction ls) (simp_all add: health_awk_line [OF assms(4)] del: join.simps One_nat_def)
  ultimately show "hawk_cmd W [''run'', ''grpc_health''] =
       \<lparr>rs_out = print_lines (map (\<lambda>l. join [TAB] [fld 1 l, map ascii_upper (fld 2 l), fld 3 l, fld 4 l]) ls),
        rs_err = [], rs_code = 0\<rparr>"
    using assms(1) by (simp add: hawk_cmd_def cmd_run_def grpc_adapter_def ls_def [symmetric] del: join.simps One_nat_def)
qed

lemma grpc_rows_health:
  assumes "upper_ok (an_upper an)" and "list_all health_line ls"
  shows "List.map_filter
       (\<lambda>line. let parts = split_on TAB line in
          if length parts < 4 then None
          else Some \<lparr>gr_endpoint = py_strip (parts ! 0), gr_status = an_upper an (py_strip (parts ! 1)),
                     gr_latency = py_strip (parts ! 2), gr_source = py_strip (parts ! 3)\<rparr>)
       (map (\<lambda>l. join [TAB] [fld 1 l, map ascii_upper (fld 2 l), fld 3 l, fld 4 l]) ls) = map health_row ls"
  using assms(2)
proof (induction ls)
  case (Cons l ls)
  then have t: "token (fld 1 l)" "token (fld 2 l)" "token (fld 3 l)" "token (fld 4 l)"
    using health_line_fields [of l] by simp_all
  then have "an_upper an (map ascii_upper (fld 2 l)) = map ascii_upper (fld 2 l)"
    using assms(1) token_upper [OF t(2)] by (simp add: upper_ok_def token_def comp_def)
  moreover have "split_on TAB (join [TAB] [fld 1 l, map ascii_upper (fld 2 l), fld 3 l, fld 4 l]) =
      [fld 1 l, map ascii_upper (fld 2 l), fld 3 l, fld 4 l]"
    using t token_upper by (intro token_parts_line(2)) simp_all
  ultimately show ?case
    using Cons t token_upper [OF t(2)] by (simp add: map_filter_simps health_row_def del: join.simps One_nat_def)
qed (simp add: map_filter_simps)

lemma polled_health:
  assumes "runs_cmd cfg an W" and "gw_fake (cw_grpc W) = Some s"
    and "list_all health_line (records s)" and "\<And>ks. mset (cw_ord W ks) = mset ks"
    and "upper_ok (ab_upper (cw_lib W))" and "upper_ok (an_upper an)"
  shows "poll_grpc cfg an c = c\<lparr>sc_grpc_rows := map health_row (emit_from_fake (cw_ord W) s),
      sc_grpc_ok := int (length (filter (\<lambda>r. gr_status r = ''SERVING'') (map health_row (emit_from_fake (cw_ord W) s)))),
      sc_grpc_bad := int (length (filter (\<lambda>r. gr_status r \<noteq> ''SERVING'') (map health_row (emit_from_fake (cw_ord W) s)))),
      sc_grpc_last := an_clock an\<rparr>"
proof -
  define ls where "ls = emit_from_fake (cw_ord W) s"
  define ps where "ps = map (\<lambda>l. join [TAB] [fld 1 l, map ascii_upper (fld 2 l), fld 3 l, fld 4 l]) ls"
  note cmd = cmd_grpc_health [OF assms(2,4,3,5), folded ls_def]
  have "list_all shown_line ps"
    unfolding ps_def list_all_iff set_map ball_simps
  proof
    fix l assume "l \<in> set ls"
    then have "health_line l" using cmd(1) by (simp add: list_all_iff)
    then show "shown_line (join [TAB] [fld 1 l, map ascii_upper (fld 2 l), fld 3 l, fld 4 l])"
      using token_upper health_line_fields [of l] by (intro token_parts_line(1)) simp_all
  qed
  note rp = read_printed [OF this]
  have cap: "run_capture an [cf_bin cfg, ''run'', ''grpc_health''] = (0, py_strip (print_lines ps))"
    by (simp add: run_capture_cmd [OF assms(1)] cmd(2) ps_def del: join.simps One_nat_def)
  have rows: "(if (0::int) = 0 \<and> py_strip (print_lines ps) \<noteq> [] then grpc_rows_of an (py_strip (print_lines ps)) else []) = map health_row ls"
    unfolding grpc_rows_of_def rp grpc_rows_health [OF assms(6) cmd(1), folded ps_def] by (simp add: ps_def)
  show ?thesis
    using poll_grpc_cache [OF cap, of c] unfolding rows unfolding ls_def .
qed

text \<open>
  C12: The endpoint health that the dashboard shows is that of the health file, through the
  adapter, the awk program and the launcher: for a file of tab-separated lines of printable
  words, the rows are those of the newest line of every endpoint, each once, in the order
  in which awk visits them, and the number of serving endpoints counts those among them
  whose status is SERVING in any case of letters.
\<close>

theorem dash_shows_health:
  assumes "runs_cmd cfg an W" and "gw_fake (cw_grpc W) = Some s"
    and "list_all health_line (records s)" and "\<And>ks. mset (cw_ord W ks) = mset ks"
    and "upper_ok (ab_upper (cw_lib W))" and "upper_ok (an_upper an)"
  shows "mset (sc_grpc_rows (poll_grpc cfg an c)) = mset (map health_row (newest (records s)))
    \<and> distinct (map gr_endpoint (sc_grpc_rows (poll_grpc cfg an c)))
    \<and> sc_grpc_ok (poll_grpc cfg an c) =
        int (length (filter (\<lambda>l. map ascii_upper (fld 2 l) = ''SERVING'') (newest (records s))))"
proof -
  define ls where "ls = emit_from_fake (cw_ord W) s"
  note poll = polled_health [OF assms, of c, folded ls_def]
  have ns: "mset ls = mset (newest (records s))"
    unfolding ls_def by (rule emit_from_fake_newest [OF assms(4,3)])
  have "distinct (map gr_endpoint (map health_row ls))"
    using newest_distinct [of "records s"] mset_eq_imp_distinct_iff [of "map (fld 1) ls" "map (fld 1) (newest (records s))"] ns
    by (simp add: health_row_def comp_def)
  moreover have "mset (filter (\<lambda>l. map ascii_upper (fld 2 l) = ''SERVING'') ls) =
      mset (filter (\<lambda>l. map ascii_upper (fld 2 l) = ''SERVING'') (newest (records s)))"
    by (simp only: mset_filter ns)
  note mset_eq_length [OF this]
  ultimately show ?thesis
    unfolding poll by (simp add: ns filter_map comp_def health_row_def)
qed

text \<open>Two endpoints, one of them written twice; awk visits the keys from the last.\<close>

definition sample_health :: string where
  "sample_health =
     print_lines [join [TAB] [''db:1'', ''SERVING'', ''3ms'', ''fake''], join [TAB] [''api:2'', ''serving'', ''4ms'', ''fake''],
                  join [TAB] [''db:1'', ''NOT_SERVING'', ''9ms'', ''fake'']]"

definition sample_lib :: "int awk_lib" where
  "sample_lib = \<lparr>ab_value = (\<lambda>s. case parse_i64 s of None \<Rightarrow> 0 | Some n \<Rightarrow> n), ab_text = i64_to_string,
     ab_whole = i64_to_string, ab_upper = map ascii_upper\<rparr>"

definition sample_world :: "int cmd_world" where
  "sample_world = \<lparr>cw_lib = sample_lib, cw_ord = rev, cw_now = 100, cw_stream_file = None, cw_log_file = None,
     cw_tail_lines = 300, cw_grpc = \<lparr>gw_targets = None, gw_fake = Some sample_health, gw_probe = None\<rparr>,
     cw_units = \<lparr>uw_units = None, uw_systemctl = None\<rparr>\<rparr>"

definition launched :: dash_answers where
  "launched = \<lparr>an_run = (\<lambda>cmd. let r = hawk_cmd sample_world (tl cmd) in Completed (rs_code r) (rs_out r) (rs_err r)),
     an_log = None, an_clock = ''12:00:00'', an_upper = map ascii_upper\<rparr>"

lemma launched_runs: "runs_cmd sample_cfg launched sample_world"
  by (simp add: runs_cmd_def launched_def)

theorem dash_shows_health_witness:
  "mset (sc_grpc_rows (poll_grpc sample_cfg launched cache_init)) = mset (map health_row (newest (records sample_health)))
    \<and> distinct (map gr_endpoint (sc_grpc_rows (poll_grpc sample_cfg launched cache_init)))
    \<and> sc_grpc_ok (poll_grpc sample_cfg launched cache_init) = 1"
proof -
  have h: "list_all health_line (records sample_health)" by code_simp
  have n: "length (filter (\<lambda>l. map ascii_upper (fld 2 l) = ''SERVING'') (newest (records sample_health))) = 1"
    by code_simp
  have "gw_fake (cw_grpc sample_world) = Some sample_health" "upper_ok (ab_upper (cw_lib sample_world))"
    "upper_ok (an_upper launched)" "\<And>ks. mset (cw_ord sample_world ks) = mset ks"
    by (simp_all add: sample_world_def sample_lib_def launched_def upper_ok_def)
  from dash_shows_health [OF launched_runs this(1) h this(4) this(2) this(3), of cache_init] n show ?thesis by simp
qed

section \<open>The catalogue\<close>

lemma cmd_run_code:
  "rs_code (cmd_run W ''grpc_health'') = (if gw_fake (cw_grpc W) = None \<and> gw_targets (cw_grpc W) = None then 1 else 0)"
  "rs_code (cmd_run W ''stream_lag'') = 0" "rs_code (cmd_run W ''tail_errors'') = 0" "rs_code (cmd_run W ''daemon_status'') = 0"
  "i \<notin> set [''grpc_health'', ''stream_lag'', ''tail_errors'', ''daemon_status''] \<Longrightarrow> rs_code (cmd_run W i) = 2"
  by (simp_all add: cmd_run_def grpc_adapter_def systemd_adapter_def split: option.split)

lemma cmd_run_unknown:
  "rs_code (cmd_run W i) = 2 \<longleftrightarrow> i \<notin> set [''grpc_health'', ''stream_lag'', ''tail_errors'', ''daemon_status'']"
proof (cases "i \<in> set [''grpc_health'', ''stream_lag'', ''tail_errors'', ''daemon_status'']")
  case True
  then have "rs_code (cmd_run W i) \<noteq> 2" using cmd_run_code(1-4) [of W] by (auto split: if_splits)
  with True show ?thesis by simp
next
  case False
  then show ?thesis using cmd_run_code(5) [of i W] by simp
qed

lemma catalog_polled:
  "List.map_filter
     (\<lambda>line. case map py_strip (split_max 3 CHR ''|'' line) of
               [i, t, r, d] \<Rightarrow> Some \<lparr>cr_id = i, cr_title = t, cr_runner = r, cr_desc = d\<rparr>
             | _ \<Rightarrow> None) cmd_catalog =
   [\<lparr>cr_id = ''grpc_health'', cr_title = ''gRPC Health'', cr_runner = ''adapter+awk'',
     cr_desc = ''Probe endpoints and normalize SERVING status''\<rparr>,
    \<lparr>cr_id = ''stream_lag'', cr_title = ''Stream Lag'', cr_runner = ''awk'',
     cr_desc = ''Summarize per-stream lag from timestamped events''\<rparr>,
    \<lparr>cr_id = ''tail_errors'', cr_title = ''Tail Errors'', cr_runner = ''awk'',
     cr_desc = ''Count ERROR/WARN/INFO in recent log lines''\<rparr>,
    \<lparr>cr_id = ''daemon_status'', cr_title = ''Daemon Status'', cr_runner = ''adapter'',
     cr_desc = ''Inspect systemd active state for unit list''\<rparr>]"
  by code_simp

lemma catalog_shown: "list_all shown_line cmd_catalog"
  by code_simp

lemma poll_catalog_launcher:
  assumes "runs_cmd cfg an W"
  shows "map cr_id (sc_command_catalog (poll_catalog cfg an c)) = [''grpc_health'', ''stream_lag'', ''tail_errors'', ''daemon_status'']"
proof -
  have "run_capture an [cf_bin cfg, ''list''] = (0, py_strip (print_lines cmd_catalog))"
    by (simp add: run_capture_cmd [OF assms] hawk_cmd_def)
  moreover have "py_strip (print_lines cmd_catalog) \<noteq> []"
    unfolding read_printed(2) [OF catalog_shown] by (simp add: cmd_catalog_def)
  ultimately show ?thesis
    by (simp add: poll_catalog_def catalog_rows_def read_printed(1) [OF catalog_shown] catalog_polled Let_def)
qed

lemma run_grpc_health_missing:
  assumes "gw_fake (cw_grpc W) = None" and "gw_targets (cw_grpc W) = None"
  shows "hawk_cmd W [''run'', ''grpc_health''] = \<lparr>rs_out = [], rs_err = [], rs_code = 1\<rparr>"
  using assms by (simp add: hawk_cmd_def cmd_run_def grpc_adapter_def print_lines_def)

lemma hawk_cmd_run: "hawk_cmd W [''run'', i] = cmd_run W i"
  by (simp add: hawk_cmd_def)

text \<open>
  C20: The catalogue and the launcher agree. The dashboard's poll of the catalogue gives the
  four commands, whatever it held before, and \<open>hawk-cmd run\<close> ends with the status 2 of an
  unknown command exactly for the ids that are not in it. After the poll the selected
  command is one of them and the dashboard runs it without an error of its own; the command
  succeeds unless it is \<open>grpc_health\<close> and neither the health file nor the file of
  endpoints is there, which the pane tells as an unknown error.
\<close>

theorem catalog_matches_launcher:
  assumes "runs_cmd cfg an W" and "cache_ok c"
  defines "c' \<equiv> poll_catalog cfg an c"
  shows "map cr_id (sc_command_catalog c') = [''grpc_health'', ''stream_lag'', ''tail_errors'', ''daemon_status'']
    \<and> (rs_code (hawk_cmd W [''run'', i]) = 2 \<longleftrightarrow> i \<notin> set (map cr_id (sc_command_catalog c')))
    \<and> (\<exists>row c''. py_nth (sc_command_catalog c') (sc_selected_command c') = Ok row
         \<and> poll_command cfg an c' = Ok c''
         \<and> (if cr_id row = ''grpc_health'' \<and> gw_fake (cw_grpc W) = None \<and> gw_targets (cw_grpc W) = None
            then sc_command_output c'' = [''command failed: grpc_health'', ''unknown error'']
            else rs_code (hawk_cmd W [''run'', cr_id row]) = 0))"
proof -
  have ids: "map cr_id (sc_command_catalog c') = [''grpc_health'', ''stream_lag'', ''tail_errors'', ''daemon_status'']"
    unfolding c'_def by (rule poll_catalog_launcher [OF assms(1)])
  have code: "rs_code (hawk_cmd W [''run'', i]) = 2 \<longleftrightarrow> i \<notin> set (map cr_id (sc_command_catalog c'))"
    unfolding hawk_cmd_run ids by (rule cmd_run_unknown)
  have ne: "sc_command_catalog c' \<noteq> []" using ids by (metis list.distinct(1) list.simps(8))
  with poll_catalog_keeps [OF assms(2), of cfg an, folded c'_def] obtain row where
    row: "py_nth (sc_command_catalog c') (sc_selected_command c') = Ok row" and "row \<in> set (sc_command_catalog c')"
    by (simp add: cache_ok_def py_nth_ok nat_less_iff)
  then have "cr_id row \<in> set (map cr_id (sc_command_catalog c'))" by simp
  then have zero: "\<not> (cr_id row = ''grpc_health'' \<and> gw_fake (cw_grpc W) = None \<and> gw_targets (cw_grpc W) = None)
      \<Longrightarrow> rs_code (hawk_cmd W [''run'', cr_id row]) = 0"
    unfolding ids hawk_cmd_run using cmd_run_code(1-4) [of W] by auto
  define r where "r = run_capture an [cf_bin cfg, ''run'', cr_id row]"
  have r: "r = (rs_code (hawk_cmd W [''run'', cr_id row]), py_strip (rs_out (hawk_cmd W [''run'', cr_id row]) @ rs_err (hawk_cmd W [''run'', cr_id row])))"
    unfolding r_def by (rule run_capture_cmd [OF assms(1)])
  have "py_strip [] = []" by (simp add: py_strip_def strip_pre_None)
  then have "cr_id row = ''grpc_health'' \<Longrightarrow> gw_fake (cw_grpc W) = None \<Longrightarrow> gw_targets (cw_grpc W) = None \<Longrightarrow> r = (1, [])"
    unfolding r by (simp add: run_grpc_health_missing)
  then obtain c'' where "poll_command cfg an c' = Ok c''"
      and "cr_id row = ''grpc_health'' \<Longrightarrow> gw_fake (cw_grpc W) = None \<Longrightarrow> gw_targets (cw_grpc W) = None \<Longrightarrow>
        sc_command_output c'' = [''command failed: grpc_health'', ''unknown error'']"
    using ne by (cases r) (auto simp: poll_command_def row r_def [symmetric])
  with ids code row zero show ?thesis by auto
qed

theorem catalog_matches_launcher_witness:
  "map cr_id (sc_command_catalog (poll_catalog sample_cfg launched cache_init)) =
      [''grpc_health'', ''stream_lag'', ''tail_errors'', ''daemon_status'']
    \<and> rs_code (hawk_cmd sample_world [''run'', ''reboot'']) = 2
    \<and> rs_code (hawk_cmd sample_world [''run'', ''stream_lag'']) \<noteq> 2"
  using catalog_matches_launcher [OF launched_runs cache_ok_init, of "''reboot''"]
    catalog_matches_launcher [OF launched_runs cache_ok_init, of "''stream_lag''"]
  by (simp del: set_map list.set_map)

section \<open>The lag of the streams\<close>

text \<open>The events of a stream, the streams there are, and the newest time among events.\<close>

definition stream_events :: "string list \<Rightarrow> string \<Rightarrow> string list" where
  "stream_events ls s = filter (\<lambda>l. 2 \<le> length (bar_fields l) \<and> bar_fields l ! 1 = s) ls"

definition stream_names :: "string list \<Rightarrow> string list" where
  "stream_names ls = remdups (map (\<lambda>l. bar_fields l ! 1) (filter (\<lambda>l. 2 \<le> length (bar_fields l)) ls))"

definition newest_time :: "'v::linordered_idom awk_lib \<Rightarrow> string list \<Rightarrow> 'v" where
  "newest_time L ls = Max (insert 0 ((\<lambda>l. ab_value L (bar_fields l ! 0)) ` set ls))"

lemma stream_events_snoc:
  "stream_events (ls @ [l]) s =
     stream_events ls s @ (if 2 \<le> length (bar_fields l) \<and> bar_fields l ! 1 = s then [l] else [])"
  by (simp add: stream_events_def)

lemma newest_time_snoc: "newest_time L (ls @ [l]) = max (newest_time L ls) (ab_value L (bar_fields l ! 0))"
proof -
  have "newest_time L (ls @ [l]) =
      Max (insert (ab_value L (bar_fields l ! 0)) (insert 0 ((\<lambda>l. ab_value L (bar_fields l ! 0)) ` set ls)))"
    by (simp add: newest_time_def insert_commute)
  also have "\<dots> = max (ab_value L (bar_fields l ! 0)) (newest_time L ls)"
    unfolding newest_time_def by (subst Max_insert) simp_all
  finally show ?thesis by (simp add: max.commute)
qed

lemma lag_fold:
  fixes L :: "'v::linordered_idom awk_lib"
  defines "st ls \<equiv> fold (lag_record L) ls \<lparr>lg_latest = [], lg_count = []\<rparr>"
  shows "bm_wf (lg_latest (st ls)) \<and> bm_wf (lg_count (st ls))
    \<and> bm_get (lg_latest (st ls)) s =
        (if stream_events ls s = [] then None else Some (newest_time L (stream_events ls s)))
    \<and> bm_get (lg_count (st ls)) s =
        (if stream_events ls s = [] then None else Some (length (stream_events ls s)))"
proof (induction ls arbitrary: s rule: rev_induct)
  case Nil
  then show ?case by (simp add: st_def stream_events_def bm_get_def)
next
  case (snoc l ls)
  have st: "st (ls @ [l]) = lag_record L l (st ls)" by (simp add: st_def)
  show ?case
  proof (cases "length (bar_fields l) < 2")
    case True
    with snoc show ?thesis unfolding st by (simp add: lag_record_def stream_events_snoc)
  next
    case False
    have e: "newest_time L [] = 0" by (simp add: newest_time_def)
    have old: "(case bm_get (lg_latest (st ls)) (bar_fields l ! 1) of None \<Rightarrow> 0 | Some t \<Rightarrow> t) =
        newest_time L (stream_events ls (bar_fields l ! 1))"
      using snoc [of "bar_fields l ! 1"] e by simp
    have n: "(case bm_get (lg_count (st ls)) (bar_fields l ! 1) of None \<Rightarrow> 0 | Some k \<Rightarrow> k) =
        length (stream_events ls (bar_fields l ! 1))"
      using snoc [of "bar_fields l ! 1"] by simp
    have mx: "(if a < b then b else a) = max a b" for a b :: 'v by (simp add: max_def not_less)
    show ?thesis
      using False snoc unfolding st lag_record_def Let_def old n mx
      by (simp add: stream_events_snoc newest_time_snoc)
  qed
qed

lemma stream_names_keys:
  fixes L :: "'v::linordered_idom awk_lib" and ls :: "string list"
  defines "st \<equiv> fold (lag_record L) ls \<lparr>lg_latest = [], lg_count = []\<rparr>"
  shows "mset (map fst (lg_latest st)) = mset (stream_names ls)"
proof -
  have "s \<in> set (map fst (lg_latest st)) \<longleftrightarrow> s \<in> set (stream_names ls)" for s
  proof -
    have "s \<in> set (map fst (lg_latest st)) \<longleftrightarrow> bm_get (lg_latest st) s \<noteq> None"
      by (simp add: bm_get_def map_of_eq_None_iff)
    also have "\<dots> \<longleftrightarrow> stream_events ls s \<noteq> []"
      using lag_fold [where L = L and ls = ls and s = s] by (simp add: st_def)
    finally show ?thesis by (auto simp: stream_events_def stream_names_def filter_empty_conv)
  qed
  moreover have "distinct (map fst (lg_latest st))"
    unfolding st_def by (rule bm.distinct_entries) (simp add: lag_fold)
  moreover have "distinct (stream_names ls)" by (simp add: stream_names_def)
  ultimately show ?thesis by (metis set_eq_iff_mset_eq_distinct subset_antisym subsetI)
qed

text \<open>
  C39: \<open>stream_lag.awk\<close> prints, in the order in which awk visits the keys, one line for every
  stream of its input: the lag of the newest event behind the clock, never negative, the
  number of the stream's events and the newest time. Whatever the order of the events, the
  lines depend only on the events of each stream; a time that is not positive counts as 0.
\<close>

theorem stream_lag_exact:
  fixes L :: "'v::linordered_idom awk_lib"
  assumes "\<And>ks. mset (ord ks) = mset ks" and "stream_names ls \<noteq> []"
  shows "mset (stream_lag_awk L ord now ls) =
    mset (map (\<lambda>s. s @ [TAB] @ ''lag='' @ ab_text L (max 0 (now - newest_time L (stream_events ls s))) @ ''s''
        @ [TAB] @ ''events='' @ to_dec (int (length (stream_events ls s)))
        @ [TAB] @ ''last_epoch='' @ ab_whole L (newest_time L (stream_events ls s))) (stream_names ls))"
    (is "_ = mset (map ?line _)")
proof -
  define st where "st = fold (lag_record L) ls \<lparr>lg_latest = [], lg_count = []\<rparr>"
  have keys: "mset (ord (map fst (lg_latest st))) = mset (stream_names ls)"
    unfolding st_def assms(1) by (rule stream_names_keys)
  have line: "lag_line L now st s = ?line s" if "s \<in> set (stream_names ls)" for s
  proof -
    have "stream_events ls s \<noteq> []"
      using that by (auto simp: stream_events_def stream_names_def filter_empty_conv)
    then have "bm_get (lg_latest st) s = Some (newest_time L (stream_events ls s))"
      "bm_get (lg_count st) s = Some (length (stream_events ls s))"
      using lag_fold [where L = L and ls = ls and s = s] by (simp_all add: st_def)
    then show ?thesis by (simp add: lag_line_def Let_def max_def not_le)
  qed
  have "lg_latest st \<noteq> []"
    using stream_names_keys [of L ls, folded st_def] assms(2) by (metis list.simps(8) mset_zero_iff)
  then have "mset (stream_lag_awk L ord now ls) = mset (map (lag_line L now st) (ord (map fst (lg_latest st))))"
    by (simp add: stream_lag_awk_def st_def [symmetric])
  also have "\<dots> = image_mset (lag_line L now st) (mset (stream_names ls))" by (simp add: keys)
  also have "\<dots> = image_mset ?line (mset (stream_names ls))" by (rule image_mset_cong) (simp add: line)
  finally show ?thesis by simp
qed

theorem stream_lag_exact_witness:
  "mset (stream_lag_awk sample_lib rev 100 [''90|ticks'', ''40|ticks'', ''noise'', ''120|agent'']) =
     mset [''ticks'' @ [TAB] @ ''lag=10s'' @ [TAB] @ ''events=2'' @ [TAB] @ ''last_epoch=90'',
           ''agent'' @ [TAB] @ ''lag=0s'' @ [TAB] @ ''events=1'' @ [TAB] @ ''last_epoch=120'']"
proof -
  let ?ls = "[''90|ticks'', ''40|ticks'', ''noise'', ''120|agent'']"
  have n: "stream_names ?ls = [''ticks'', ''agent'']" by code_simp
  have e: "stream_events ?ls ''ticks'' = [''90|ticks'', ''40|ticks'']" "stream_events ?ls ''agent'' = [''120|agent'']"
    by code_simp+
  have t: "newest_time sample_lib [''90|ticks'', ''40|ticks''] = 90" "newest_time sample_lib [''120|agent''] = 120"
    by code_simp+
  have d: "ab_text sample_lib 10 = ''10''" "ab_text sample_lib 0 = ''0''" "ab_whole sample_lib 90 = ''90''"
    "ab_whole sample_lib 120 = ''120''" "to_dec 2 = ''2''" "to_dec 1 = ''1''"
    by code_simp+
  show ?thesis
    using stream_lag_exact [of rev ?ls sample_lib 100] by (simp add: n e t d)
qed

text \<open>Without the events file the launcher prints the letters backslash and t for tabs: one column.\<close>

lemma stream_lag_missing:
  assumes "cw_stream_file W = None"
  shows "TAB \<notin> set (rs_out (hawk_cmd W [''run'', ''stream_lag'']))"
  using assms by (simp add: hawk_cmd_def cmd_run_def echo_tabs_def print_lines_def)

text \<open>
  The actions of the keys: a start, stop or restart that neither scope accepts is reported as
  a failure, and so is every one without \<open>systemctl\<close>; asking for the health never is.
\<close>

lemma daemon_ctl_code:
  "rs_code (daemon_ctl W a u) =
     (if a = [] then 2 else if a = ''health'' \<or> a = ''status'' then 0
      else (case cw_do W of
              None \<Rightarrow> 1
            | Some call \<Rightarrow>
                (let v = (if u = [] then ''hawk-agent.service'' else u)
                 in if fst (call False a v) \<or> fst (call True a v) then 0 else 1)))"
  by (simp add: daemon_ctl_def Let_def split: option.split)

text \<open>A file of endpoints or units without a newline at its end loses its last line.\<close>

lemma read_loop_unterminated:
  "\<forall>p \<in> set ls. LF \<notin> set p \<Longrightarrow> LF \<notin> set l \<Longrightarrow> read_loop (print_lines ls @ l) = ls"
  by (induction ls) (simp_all add: read_loop_def print_lines_def split_on_no_sep split_on_append)

end
