(* ===== verification/Start_Scripts.thy ===== *)
theory Start_Scripts
  imports Hawk_Cmd
begin

text \<open>
  Which files the dashboard and the launcher work on. Both take them from the environment:
  \<open>bin/hawk-cmd\<close> with \<open>${VAR:-default}\<close>, \<open>hawk_tui.py\<close> with \<open>os.environ.get\<close>. The scripts
  \<open>shims/example.sh\<close> and \<open>shell/run_fake.sh\<close> set the environment and start \<open>run.sh\<close>, which
  prints a banner and executes the dashboard in it.
\<close>

section \<open>The scripts\<close>

type_synonym environment = "string \<Rightarrow> string option"

text \<open>\<open>${VAR:-default}\<close>: the default also stands in for an empty value.\<close>

definition env_or :: "environment \<Rightarrow> string \<Rightarrow> string \<Rightarrow> string" where
  "env_or env k d = (case env k of None \<Rightarrow> d | Some v \<Rightarrow> if v = [] then d else v)"

record cmd_settings =
  st_log_file :: string
  st_stream_file :: string
  st_targets_file :: string
  st_fake_grpc_file :: string
  st_units_file :: string

definition cmd_settings :: "environment \<Rightarrow> string \<Rightarrow> cmd_settings" where
  "cmd_settings env base =
     \<lparr>st_log_file = env_or env ''HAWK_LOG_FILE'' (base @ ''/shell/fake_env/runtime.log''),
      st_stream_file = env_or env ''HAWK_STREAM_FILE'' (base @ ''/shell/fake_env/stream.events''),
      st_targets_file = env_or env ''HAWK_GRPC_TARGETS'' (base @ ''/shell/fake_env/grpc.targets''),
      st_fake_grpc_file = env_or env ''HAWK_GRPC_FAKE_FILE'' (base @ ''/shell/fake_env/grpc_health.jsonl''),
      st_units_file = env_or env ''HAWK_UNITS_FILE'' (base @ ''/conf/systemd_units.txt'')\<rparr>"

text \<open>The environment in which \<open>shims/example.sh\<close> and \<open>shell/run_fake.sh\<close> execute \<open>run.sh\<close>.\<close>

definition shim_env :: "environment \<Rightarrow> string \<Rightarrow> environment" where
  "shim_env env base =
     (let data_dir = env_or env ''HAWK_DATA_DIR'' ''/var/lib/hawk''
      in env(''HAWK_LOG_FILE'' \<mapsto> env_or env ''HAWK_LOG_FILE'' (data_dir @ ''/runtime.log''),
             ''HAWK_STREAM_FILE'' \<mapsto> env_or env ''HAWK_STREAM_FILE'' (data_dir @ ''/stream.events''),
             ''HAWK_GRPC_TARGETS'' \<mapsto> env_or env ''HAWK_GRPC_TARGETS'' (base @ ''/conf/grpc.targets.example''),
             ''HAWK_DAEMON_UNIT'' \<mapsto> env_or env ''HAWK_DAEMON_UNIT'' ''hawkd.service''))"

definition run_fake_env :: "environment \<Rightarrow> string \<Rightarrow> environment" where
  "run_fake_env env base =
     env(''HAWK_LOG_FILE'' \<mapsto> base @ ''/shell/fake_env/runtime.log'',
         ''HAWK_STREAM_FILE'' \<mapsto> base @ ''/shell/fake_env/stream.events'',
         ''HAWK_GRPC_TARGETS'' \<mapsto> base @ ''/shell/fake_env/grpc.targets'',
         ''HAWK_GRPC_FAKE_FILE'' \<mapsto> base @ ''/shell/fake_env/grpc_health.jsonl'')"

section \<open>The same files\<close>

definition same_files :: "environment \<Rightarrow> string \<Rightarrow> bool" where
  "same_files env base \<longleftrightarrow>
     (let cfg = config_init env base in cmd_settings env base =
       \<lparr>st_log_file = cf_log_file cfg, st_stream_file = cf_stream_file cfg, st_targets_file = cf_grpc_targets cfg,
        st_fake_grpc_file = cf_grpc_fake cfg, st_units_file = cf_units_file cfg\<rparr>)"

definition file_vars :: "string list" where
  "file_vars = [''HAWK_LOG_FILE'', ''HAWK_STREAM_FILE'', ''HAWK_GRPC_TARGETS'', ''HAWK_GRPC_FAKE_FILE'', ''HAWK_UNITS_FILE'']"

lemma env_or_getenv: "d \<noteq> [] \<Longrightarrow> env_or env k d = getenv env k d \<longleftrightarrow> env k \<noteq> Some []"
  by (auto simp: env_or_def getenv_def split: option.splits)

lemma env_or_not_Nil [simp]: "d \<noteq> [] \<Longrightarrow> env_or env k d \<noteq> []"
  by (simp add: env_or_def split: option.splits)

lemma same_files_iff: "same_files env base \<longleftrightarrow> list_all (\<lambda>v. env v \<noteq> Some []) file_vars"
  by (simp add: same_files_def file_vars_def cmd_settings_def config_init_def env_or_getenv)


text \<open>
  The shim names real endpoints but not the health file: as long as the one of the fake
  environment is there, the adapter prints it and probes nothing.
\<close>

lemma shim_health_file:
  "env ''HAWK_GRPC_FAKE_FILE'' = None \<Longrightarrow>
   st_fake_grpc_file (cmd_settings (shim_env env base) base) = base @ ''/shell/fake_env/grpc_health.jsonl''"
  by (simp add: cmd_settings_def shim_env_def env_or_def Let_def)

lemma health_file_first:
  "gw_fake W = Some s \<Longrightarrow> grpc_adapter ord W = grpc_adapter ord (W\<lparr>gw_targets := t, gw_probe := p\<rparr>)"
  by (simp add: grpc_adapter_def)

end
