(* ===== verification/Fake_Env.thy ===== *)
theory Fake_Env
  imports Hawk_Cmd
begin

text \<open>
  The development environment under \<open>shell\<close>: \<open>init_fake_env.sh\<close> writes the files the
  commands read and \<open>emit_fake_activity.sh\<close> appends to them. The files are their texts and
  \<open>date +%s\<close> is data: the counter of the emitter is an unbounded number, which a loop with a
  positive count leaves before it could wrap.
\<close>

section \<open>The scripts\<close>

record fake_files =
  ff_log :: string
  ff_stream :: string
  ff_targets :: string
  ff_grpc :: string
  ff_chat :: string

definition init_fake_env :: "string \<Rightarrow> fake_files" where
  "init_fake_env now =
     \<lparr>ff_log = print_lines [now @ '' INFO hawk boot complete'', now @ '' INFO awk library loaded'',
                            now @ '' WARN grpc target 127.0.0.1:50052 cold-start''],
      ff_stream = print_lines [now @ ''|orders|boot'', now @ ''|health|boot'', now @ ''|agent|boot''],
      ff_targets = print_lines [''127.0.0.1:50051'', ''127.0.0.1:50052'', ''127.0.0.1:50053''],
      ff_grpc = print_lines [join [TAB] [''127.0.0.1:50051'', ''SERVING'', ''12ms'', ''fake''],
                             join [TAB] [''127.0.0.1:50052'', ''NOT_SERVING'', ''31ms'', ''fake''],
                             join [TAB] [''127.0.0.1:50053'', ''SERVING'', ''9ms'', ''fake'']],
      ff_chat = []\<rparr>"

definition log_event :: "string \<Rightarrow> nat \<Rightarrow> string" where
  "log_event ts i =
     (let sev = (if i mod 9 = 0 then ''ERROR'' else if i mod 4 = 0 then ''WARN'' else ''INFO'')
      in ts @ '' '' @ sev @ '' pulse heartbeat seq='' @ to_dec (int i))"

definition stream_event :: "string \<Rightarrow> nat \<Rightarrow> string" where
  "stream_event ts i =
     (let stream_name = (if i mod 3 = 0 then ''orders'' else if i mod 3 = 1 then ''health'' else ''agent'')
      in ts @ ''|'' @ stream_name @ ''|event_'' @ to_dec (int i))"

definition health_event :: "nat \<Rightarrow> string" where
  "health_event i =
     (let endpoint = (if i mod 3 = 0 then ''127.0.0.1:50051'' else if i mod 3 = 1 then ''127.0.0.1:50052''
                      else ''127.0.0.1:50053'');
          status = (if i mod 7 = 0 then ''NOT_SERVING'' else ''SERVING'');
          latency = to_dec (int (8 + i mod 40)) @ ''ms''
      in join [TAB] [endpoint, status, latency, ''fake''])"

definition emit_pulse :: "string \<Rightarrow> nat \<Rightarrow> fake_files \<Rightarrow> fake_files" where
  "emit_pulse ts i f =
     f\<lparr>ff_log := ff_log f @ log_event ts i @ [LF], ff_stream := ff_stream f @ stream_event ts i @ [LF],
       ff_grpc := ff_grpc f @ health_event i @ [LF]\<rparr>"

text \<open>The loop: a count of 0 (or less) is infinite, and then it has no result.\<close>

partial_function (option) emit_loop :: "(nat \<Rightarrow> string) \<Rightarrow> int \<Rightarrow> nat \<Rightarrow> fake_files \<Rightarrow> fake_files option" where
  "emit_loop clock cnt i f =
     (let i = i + 1; f = emit_pulse (clock i) i f
      in if 0 < cnt \<and> cnt \<le> int i then Some f else emit_loop clock cnt i f)"

definition emit_fake_activity :: "(nat \<Rightarrow> string) \<Rightarrow> int \<Rightarrow> fake_files \<Rightarrow> fake_files option" where
  "emit_fake_activity clock cnt f = emit_loop clock cnt 0 f"

section \<open>The emitter\<close>

definition pulses :: "(nat \<Rightarrow> string) \<Rightarrow> nat \<Rightarrow> nat \<Rightarrow> fake_files \<Rightarrow> fake_files" where
  "pulses clock i n f = fold (\<lambda>j. emit_pulse (clock j) j) [Suc i..<Suc (i + n)] f"

lemma pulses_Suc: "pulses clock i (Suc n) f = pulses clock (Suc i) n (emit_pulse (clock (Suc i)) (Suc i) f)"
proof -
  have "[Suc i..<Suc (i + Suc n)] = Suc i # [Suc (Suc i)..<Suc (Suc i + n)]"
    by (simp add: upt_conv_Cons)
  then show ?thesis by (simp add: pulses_def del: upt_Suc)
qed

lemma emit_loop_ends: "0 < cnt \<Longrightarrow> int i < cnt \<Longrightarrow> emit_loop clock cnt i f = Some (pulses clock i (nat cnt - i) f)"
proof (induction "nat cnt - i" arbitrary: i f)
  case (Suc n)
  show ?case
  proof (cases "cnt \<le> int (i + 1)")
    case True
    with Suc.prems have "nat cnt - i = Suc 0" by linarith
    with True Suc.prems show ?thesis
      by (subst emit_loop.simps) (simp add: Let_def pulses_Suc, simp add: pulses_def)
  next
    case False
    with Suc have "emit_loop clock cnt (Suc i) (emit_pulse (clock (Suc i)) (Suc i) f) =
        Some (pulses clock (Suc i) (nat cnt - Suc i) (emit_pulse (clock (Suc i)) (Suc i) f))"
      by simp
    moreover have "nat cnt - i = Suc (nat cnt - Suc i)" using Suc.hyps(2) False by linarith
    ultimately show ?thesis using False by (subst emit_loop.simps) (simp add: Let_def pulses_Suc)
  qed
qed simp

lemma emit_loop_count: "emit_loop clock cnt i f = Some f' \<Longrightarrow> 0 < cnt"
  by (rule emit_loop.raw_induct [where P = "\<lambda>clock cnt i f f'. 0 < cnt"]) (auto simp: Let_def split: if_splits)

text \<open>
  C40: The emitter ends exactly when it is given a positive count, and then after that many
  pulses, numbered from 1, each appended to the log, the stream and the health file. With
  the default count of 0 it runs for ever.
\<close>

theorem emitter_ends_iff:
  "emit_fake_activity clock cnt f = (if 0 < cnt then Some (pulses clock 0 (nat cnt) f) else None)"
proof (cases "0 < cnt")
  case True
  then show ?thesis by (simp add: emit_fake_activity_def emit_loop_ends)
next
  case False
  with emit_loop_count [of clock cnt 0 f] show ?thesis
    by (cases "emit_loop clock cnt 0 f") (simp_all add: emit_fake_activity_def)
qed

lemma pulses_files:
  "ff_log (pulses clock 0 n f) = ff_log f @ print_lines (map (\<lambda>i. log_event (clock i) i) [1..<Suc n])"
  "ff_stream (pulses clock 0 n f) = ff_stream f @ print_lines (map (\<lambda>i. stream_event (clock i) i) [1..<Suc n])"
  "ff_grpc (pulses clock 0 n f) = ff_grpc f @ print_lines (map health_event [1..<Suc n])"
  by (induction n) (simp_all add: pulses_def print_lines_def emit_pulse_def)

section \<open>The health file\<close>

lemma health_join:
  assumes "list_all token [e, s, l, f]"
  shows "health_line (join [TAB] [e, s, l, f])" "fld 1 (join [TAB] [e, s, l, f]) = e" "fld 2 (join [TAB] [e, s, l, f]) = s"
  using token_parts_line(2) [OF assms] assms by (simp_all add: health_line_def fld_def Let_def del: join.simps)

lemma digits_tokens: "list_all (\<lambda>d. token_char (digit_char d)) [0, 1, 2, 3, 4, 5, 6, 7, 8, 9]"
  by code_simp

lemma to_dec_token: "0 \<le> n \<Longrightarrow> token (to_dec n)"
proof -
  have "token_char (digit_char d)" if "0 \<le> d" "d < 10" for d
  proof -
    from that have "d \<in> set [0, 1, 2, 3, 4, 5, 6, 7, 8, 9]" by (simp, presburger)
    then show ?thesis using digits_tokens unfolding list_all_iff by blast
  qed
  then show "0 \<le> n \<Longrightarrow> token (to_dec n)"
    using to_dec_digits [of n] by (auto simp: token_def list_all_iff)
qed

lemma token_append: "token s \<Longrightarrow> token t \<Longrightarrow> token (s @ t)"
  by (simp add: token_def)

lemma fake_tokens:
  "token ''127.0.0.1:50051''" "token ''127.0.0.1:50052''" "token ''127.0.0.1:50053''" "token ''SERVING''"
  "token ''NOT_SERVING''" "token ''fake''" "token ''ms''" "token ''12ms''" "token ''31ms''" "token ''9ms''"
  by (simp_all add: token_def token_char_def)

lemma health_event_parts:
  "health_line (health_event i)"
  "fld 1 (health_event i) = (if i mod 3 = 0 then ''127.0.0.1:50051'' else if i mod 3 = 1 then ''127.0.0.1:50052'' else ''127.0.0.1:50053'')"
  "fld 2 (health_event i) = (if i mod 7 = 0 then ''NOT_SERVING'' else ''SERVING'')"
proof -
  let ?e = "if i mod 3 = 0 then ''127.0.0.1:50051'' else if i mod 3 = 1 then ''127.0.0.1:50052'' else ''127.0.0.1:50053''"
  let ?s = "if i mod 7 = 0 then ''NOT_SERVING'' else ''SERVING''"
  have "list_all token [?e, ?s, to_dec (int (8 + i mod 40)) @ ''ms'', ''fake'']"
    using token_append [OF to_dec_token fake_tokens(7)] fake_tokens by simp
  from health_join [OF this] show "health_line (health_event i)" "fld 1 (health_event i) = ?e" "fld 2 (health_event i) = ?s"
    unfolding health_event_def Let_def by this+
qed

definition init_health :: "string list" where
  "init_health =
     [join [TAB] [''127.0.0.1:50051'', ''SERVING'', ''12ms'', ''fake''],
      join [TAB] [''127.0.0.1:50052'', ''NOT_SERVING'', ''31ms'', ''fake''],
      join [TAB] [''127.0.0.1:50053'', ''SERVING'', ''9ms'', ''fake'']]"

lemma health_line_LF: "health_line l \<Longrightarrow> LF \<notin> set l"
  using shown_line_LF [OF token_parts_line(1), of "split_on TAB l"] by (auto simp: health_line_def join_split_on)

lemma init_health_lines: "list_all health_line init_health"
  using fake_tokens by (simp add: init_health_def health_join del: join.simps)

lemma fake_health_records:
  "records (ff_grpc (pulses clock 0 n (init_fake_env now))) = init_health @ map health_event [1..<Suc n]"
  "list_all health_line (init_health @ map health_event [1..<Suc n])"
proof -
  show l: "list_all health_line (init_health @ map health_event [1..<Suc n])"
    using init_health_lines health_event_parts(1) by (auto simp: list_all_iff)
  have "ff_grpc (pulses clock 0 n (init_fake_env now)) = print_lines (init_health @ map health_event [1..<Suc n])"
    unfolding pulses_files(3) by (simp add: init_fake_env_def init_health_def print_lines_def)
  then show "records (ff_grpc (pulses clock 0 n (init_fake_env now))) = init_health @ map health_event [1..<Suc n]"
    using l health_line_LF by (simp only: list_all_iff) (intro records_print_lines, blast)
qed

lemma newest_suffix: "set (newest ys) \<subseteq> set (newest (xs @ ys))"
  by (induction xs) auto

text \<open>At most one of two pulses in a row is unhealthy, and they are about different endpoints.\<close>

lemma fake_health_serving:
  "\<exists>l \<in> set (newest (init_health @ map health_event [1..<Suc n])). fld 2 l = ''SERVING''"
proof (cases n)
  case 0
  have "join [TAB] [''127.0.0.1:50053'', ''SERVING'', ''9ms'', ''fake''] \<in> set (newest init_health)"
    using newest_suffix [of "[last init_health]" "butlast init_health"] by (simp add: init_health_def del: join.simps)
  then show ?thesis using 0 health_join(3) fake_tokens by (intro bexI) (simp_all del: join.simps)
next
  case (Suc m)
  show ?thesis
  proof (cases "n mod 7 = 0")
    case False
    have "set (newest [health_event n]) \<subseteq> set (newest (init_health @ map health_event [1..<Suc n]))"
      using newest_suffix [of "[health_event n]" "init_health @ map health_event [1..<n]"] Suc by simp
    then show ?thesis using False health_event_parts(3) [of n] by auto
  next
    case True
    with Suc obtain k where k: "n = Suc (Suc k)" "Suc k mod 7 \<noteq> 0" by (cases m) (auto simp: mod_Suc split: if_splits)
    have "fld 1 (health_event (Suc k)) \<noteq> fld 1 (health_event n)"
      unfolding health_event_parts(2) k(1) using mod_less_divisor [of 3 k] by (auto simp: mod_Suc split: if_splits)
    then have "health_event (Suc k) \<in> set (newest [health_event (Suc k), health_event n])" by simp
    moreover have "map health_event [1..<Suc n] = map health_event [1..<Suc k] @ [health_event (Suc k), health_event n]"
      using k(1) by simp
    ultimately have "health_event (Suc k) \<in> set (newest (init_health @ map health_event [1..<Suc n]))"
      using newest_suffix [of "[health_event (Suc k), health_event n]" "init_health @ map health_event [1..<Suc k]"] by auto
    then show ?thesis using k(2) health_event_parts(3) [of "Suc k"] by auto
  qed
qed

section \<open>The stream file\<close>

text \<open>\<open>date +%s\<close> prints digits.\<close>

definition date_text :: "string \<Rightarrow> bool" where
  "date_text s \<longleftrightarrow> list_all (\<lambda>c. c \<in> set ''0123456789'') s"

lemma date_text_not: "date_text s \<Longrightarrow> c \<notin> set ''0123456789'' \<Longrightarrow> c \<notin> set s"
  unfolding date_text_def list_all_iff by blast

lemma stream_line:
  assumes "date_text ts" and "CHR ''|'' \<notin> set name"
  shows "2 \<le> length (bar_fields (ts @ ''|'' @ name @ ''|'' @ rest))" "bar_fields (ts @ ''|'' @ name @ ''|'' @ rest) ! 1 = name"
proof -
  have "CHR ''|'' \<notin> set ts" by (rule date_text_not [OF assms(1)]) simp
  with assms(2) have "bar_fields (ts @ ''|'' @ name @ ''|'' @ rest) = ts # name # split_on CHR ''|'' rest"
    by (simp add: bar_fields_def split_on_append)
  then show "2 \<le> length (bar_fields (ts @ ''|'' @ name @ ''|'' @ rest))" "bar_fields (ts @ ''|'' @ name @ ''|'' @ rest) ! 1 = name"
    by simp_all
qed

definition fake_stream :: "(nat \<Rightarrow> string) \<Rightarrow> string \<Rightarrow> nat \<Rightarrow> string list" where
  "fake_stream clock now n =
     [now @ ''|orders|boot'', now @ ''|health|boot'', now @ ''|agent|boot''] @ map (\<lambda>i. stream_event (clock i) i) [1..<Suc n]"

lemma fake_stream_line:
  assumes "date_text now" and "\<And>i. date_text (clock i)" and "l \<in> set (fake_stream clock now n)"
  obtains ts name rest where "l = ts @ ''|'' @ name @ ''|'' @ rest" "date_text ts"
    "name \<in> {''orders'', ''health'', ''agent''}" "LF \<notin> set rest"
proof -
  have d: "LF \<notin> set (to_dec (int i))" for i
    using to_dec_token [of "int i"] token_char_not by (auto simp: token_def list_all_iff)
  have e: "stream_event ts i = ts @ ''|'' @ (if i mod 3 = 0 then ''orders'' else if i mod 3 = 1 then ''health'' else ''agent'')
      @ ''|'' @ (''event_'' @ to_dec (int i))" for ts i
    by (simp add: stream_event_def Let_def)
  from assms(3) consider name where "name \<in> {''orders'', ''health'', ''agent''}" "l = now @ ''|'' @ name @ ''|'' @ ''boot''"
    | i where "l = stream_event (clock i) i"
    by (auto simp: fake_stream_def simp del: upt_Suc)
  then show thesis
  proof cases
    case (1 name)
    then show thesis using that [of now name "''boot''"] assms(1) by simp
  next
    case (2 i)
    show thesis
      by (rule that [OF 2 [unfolded e]]) (use assms(2) d in auto)
  qed
qed

lemma fake_stream_records:
  assumes "date_text now" and "\<And>i. date_text (clock i)"
  shows "records (ff_stream (pulses clock 0 n (init_fake_env now))) = fake_stream clock now n"
proof -
  have "ff_stream (pulses clock 0 n (init_fake_env now)) = print_lines (fake_stream clock now n)"
    unfolding pulses_files(2) by (simp add: init_fake_env_def fake_stream_def print_lines_def)
  moreover have "LF \<notin> set l" if "l \<in> set (fake_stream clock now n)" for l
  proof (rule fake_stream_line [OF assms that])
    fix ts name rest
    assume l: "l = ts @ ''|'' @ name @ ''|'' @ rest" and "date_text ts" "name \<in> {''orders'', ''health'', ''agent''}" "LF \<notin> set rest"
    moreover have "LF \<notin> set ts" by (rule date_text_not [OF \<open>date_text ts\<close>]) simp
    ultimately show "LF \<notin> set l" by auto
  qed
  ultimately show ?thesis by (simp add: records_print_lines)
qed

lemma fake_stream_names:
  assumes "date_text now" and "\<And>i. date_text (clock i)"
  shows "stream_names (fake_stream clock now n) \<noteq> []" "set (stream_names (fake_stream clock now n)) \<subseteq> {''orders'', ''health'', ''agent''}"
proof -
  have l: "2 \<le> length (bar_fields l) \<and> bar_fields l ! 1 \<in> {''orders'', ''health'', ''agent''}"
    if "l \<in> set (fake_stream clock now n)" for l
  proof (rule fake_stream_line [OF assms that])
    fix ts name rest
    assume l: "l = ts @ ''|'' @ name @ ''|'' @ rest" and ts: "date_text ts" and name: "name \<in> {''orders'', ''health'', ''agent''}"
    from name have "CHR ''|'' \<notin> set name" by auto
    from stream_line [OF ts this, of rest] show ?thesis using name unfolding l by metis
  qed
  then show "set (stream_names (fake_stream clock now n)) \<subseteq> {''orders'', ''health'', ''agent''}"
    unfolding stream_names_def by (auto simp del: insert_iff)
  have "now @ ''|orders|boot'' \<in> set (fake_stream clock now n)" by (simp add: fake_stream_def)
  with l [OF this] show "stream_names (fake_stream clock now n) \<noteq> []"
    by (auto simp: stream_names_def filter_empty_conv)
qed

end
