(* ===== verification/Verify_Script.thy ===== *)
theory Verify_Script
  imports Fake_Env
begin

text \<open>
  The acceptance test \<open>shell/verify.sh\<close>: it runs the dashboard's \<open>--check\<close> over the fake
  environment, reads four numbers back from the JSON it prints and tests them.
\<close>

section \<open>The script\<close>

text \<open>\<open>$(...)\<close> drops the newlines at the end.\<close>

definition bash_capture :: "string \<Rightarrow> string" where
  "bash_capture s = rev (dropWhile (\<lambda>c. c = LF) (rev s))"

text \<open>\<open>printf '%s\n' "$out2" | awk -F': ' '/"key"/{gsub(/,/,"",$2);print $2}'\<close>.\<close>

definition second_field :: "string \<Rightarrow> string" where
  "second_field line = (case split_str '': '' line of _ # f # _ \<Rightarrow> f | _ \<Rightarrow> [])"

definition json_field :: "string \<Rightarrow> string \<Rightarrow> string" where
  "json_field key out2 =
     bash_capture (print_lines (map (\<lambda>l. filter (\<lambda>c. c \<noteq> CHR '','') (second_field l))
       (filter (\<lambda>l. contains (DQ # key @ [DQ]) l) (records (out2 @ [LF])))))"

text \<open>
  \<open>"${v:-0}"\<close> as the operand of a numeric test: a decimal number of 64 bits. What bash makes
  of another text is not modelled, and then the script has no result here.
\<close>

definition bash_number :: "string \<Rightarrow> int option" where
  "bash_number v = parse_i64 (if v = [] then ''0'' else v)"

definition require :: "bool \<Rightarrow> string \<Rightarrow> string \<Rightarrow> string list" where
  "require ok name v = (if ok then [] else [''FAIL: '' @ name @ ''='' @ v])"

text \<open>The lines printed and the exit status.\<close>

definition verify :: "string \<Rightarrow> string \<Rightarrow> (string list \<times> int) option" where
  "verify out1 out2 =
     (let commands = json_field ''commands'' out2; grpc_ok = json_field ''grpc_ok'' out2;
          stream_rows = json_field ''stream_rows'' out2; log_size = json_field ''log_size'' out2
      in case (bash_number commands, bash_number grpc_ok, bash_number stream_rows, bash_number log_size) of
           (Some c, Some g, Some s, Some l) \<Rightarrow>
             (let fails = require (4 \<le> c) ''commands'' commands @ require (1 \<le> g) ''grpc_ok'' grpc_ok
                          @ require (1 \<le> s) ''stream_rows'' stream_rows @ require (0 < l) ''log_size'' log_size
              in if fails \<noteq> [] then Some (fails @ [''verify failed'', ''--check #1'', out1, ''--check #2'', out2], 1)
                 else Some ([''verify passed'', out2], 0))
         | _ \<Rightarrow> None)"

section \<open>Reading the numbers back\<close>

lemma split_str_single: "c \<notin> set v \<Longrightarrow> split_str (c # p) v = [v]"
  by (induction v) auto

lemma split_on_tail: "set (split_on c t) \<subseteq> set (tl (split_on c (u @ c # t)))"
proof (induction u)
  case (Cons x u)
  then show ?case by (cases "split_on c (u @ c # t)") auto
qed simp

lemma contains_quoted:
  assumes "contains (DQ # k @ [DQ]) l" and "DQ \<notin> set k"
  shows "k \<in> set (split_on DQ l)"
proof -
  from assms(1) obtain u v where l: "l = u @ DQ # (k @ DQ # v)" by (auto simp: contains_iff)
  have "k \<in> set (split_on DQ (k @ DQ # v))" using split_on_append [OF assms(2)] by simp
  then have "k \<in> set (tl (split_on DQ l))" unfolding l using split_on_tail by blast
  then show ?thesis by (metis list.set_sel(2) split_on_not_Nil)
qed

lemma json_line_pieces:
  "DQ \<notin> set key \<Longrightarrow> split_on DQ (json_line key v comma) = ''  '' # key # split_on DQ ('': '' @ v @ (if comma then '','' else []))"
  using split_on_append [of DQ "''  ''" "key @ DQ # '': '' @ v @ (if comma then '','' else [])"]
    split_on_append [of DQ key "'': '' @ v @ (if comma then '','' else [])"]
  by (simp add: json_line_def)

lemma json_line_has:
  assumes "DQ \<notin> set key" "DQ \<notin> set v" "DQ \<notin> set k" "k \<noteq> ''  ''" "k = [] \<or> hd k \<noteq> CHR '':''" "k \<noteq> []"
  shows "contains (DQ # k @ [DQ]) (json_line key v comma) \<longleftrightarrow> k = key"
proof
  assume "contains (DQ # k @ [DQ]) (json_line key v comma)"
  from contains_quoted [OF this assms(3)] show "k = key"
    unfolding json_line_pieces [OF assms(1)] using assms by (cases comma) (auto simp: split_on_no_sep)
next
  assume "k = key"
  then show "contains (DQ # k @ [DQ]) (json_line key v comma)"
    unfolding contains_iff json_line_def
    by (intro exI [of _ "''  ''"] exI [of _ "'': '' @ v @ (if comma then '','' else [])"]) simp
qed

definition check_keys :: "string list" where
  "check_keys = [''commands'', ''grpc_ok'', ''grpc_bad'', ''stream_rows'', ''log_size'', ''log_delta'']"

lemma check_key_text: "list_all (\<lambda>k. DQ \<notin> set k \<and> k \<noteq> [] \<and> hd k \<noteq> CHR '':'' \<and> k \<noteq> ''  '' \<and> k \<notin> set (split_on DQ (json_line ''app'' ([DQ] @ ''hawk-tui'' @ [DQ]) True))
    \<and> k \<noteq> ''{'' \<and> k \<noteq> ''}'' \<and> CHR '':'' \<notin> set k) check_keys"
  by code_simp

lemma number_text: "c \<in> set (i64_to_string n) \<Longrightarrow> c \<notin> set [DQ, CHR '':'', CHR '','', LF]"
proof
  assume c: "c \<in> set (i64_to_string n)" and m: "c \<in> set [DQ, CHR '':'', CHR '','', LF]"
  from m have "digit_val c = None" "c \<noteq> CHR ''-''" by (auto simp: digit_val_def)
  with i64_to_string_chars [OF c] show False using digit_char_not by blast
qed

lemma split_str_first: "c \<notin> set u \<Longrightarrow> split_str (c # p) (u @ (c # p) @ w) = u # split_str (c # p) w"
proof (induction u)
  case (Cons x u)
  then have "\<not> prefix (c # p) ((x # u) @ (c # p) @ w)" by simp
  with Cons show ?case by simp
qed simp

lemma second_field_line:
  assumes "CHR '':'' \<notin> set key" and "CHR '':'' \<notin> set v"
  shows "second_field (json_line key v comma) = v @ (if comma then '','' else [])"
proof -
  have "split_str '': '' ((''  '' @ DQ # key @ [DQ]) @ '': '' @ (v @ (if comma then '','' else []))) =
      (''  '' @ DQ # key @ [DQ]) # split_str '': '' (v @ (if comma then '','' else []))"
    using assms by (intro split_str_first) auto
  moreover have "split_str '': '' (v @ (if comma then '','' else [])) = [v @ (if comma then '','' else [])]"
    using assms by (intro split_str_single) auto
  moreover have "json_line key v comma = (''  '' @ DQ # key @ [DQ]) @ '': '' @ (v @ (if comma then '','' else []))"
    by (simp add: json_line_def)
  ultimately show ?thesis unfolding second_field_def by simp
qed

definition check_entries :: "check_data \<Rightarrow> (string \<times> int \<times> bool) list" where
  "check_entries d =
     [(''commands'', cd_commands d, True), (''grpc_ok'', cd_grpc_ok d, True), (''grpc_bad'', cd_grpc_bad d, True),
      (''stream_rows'', cd_stream_rows d, True), (''log_size'', cd_log_size d, True), (''log_delta'', cd_log_delta d, False)]"

lemma check_json_entries:
  "check_json d = ''{'' # json_line ''app'' ([DQ] @ ''hawk-tui'' @ [DQ]) True
     # map (\<lambda>(key, v, comma). json_line key (i64_to_string v) comma) (check_entries d) @ [''}'']"
  by (simp add: check_json_def check_entries_def)

lemma check_entry_key: "(key, v, comma) \<in> set (check_entries d) \<Longrightarrow> key \<in> set check_keys"
  by (auto simp: check_entries_def check_keys_def)

text \<open>The lines of the check that have a quoted key.\<close>

lemma check_lines_key:
  assumes "k \<in> set check_keys"
  shows "filter (contains (DQ # k @ [DQ])) (check_json d) =
    map (\<lambda>(key, v, comma). json_line key (i64_to_string v) comma) (filter (\<lambda>(key, _). k = key) (check_entries d))"
proof -
  have t: "DQ \<notin> set j \<and> j \<noteq> [] \<and> hd j \<noteq> CHR '':'' \<and> j \<noteq> ''  '' \<and> j \<notin> set (split_on DQ (json_line ''app'' ([DQ] @ ''hawk-tui'' @ [DQ]) True))
    \<and> j \<noteq> ''{'' \<and> j \<noteq> ''}'' \<and> CHR '':'' \<notin> set j" if "j \<in> set check_keys" for j
    using check_key_text that unfolding list_all_iff by blast
  note k = t [OF assms]
  have "\<not> contains (DQ # k @ [DQ]) ''{''" "\<not> contains (DQ # k @ [DQ]) ''}''"
    "\<not> contains (DQ # k @ [DQ]) (json_line ''app'' ([DQ] @ ''hawk-tui'' @ [DQ]) True)"
    using k contains_quoted [of k "''{''"] contains_quoted [of k "''}''"]
      contains_quoted [of k "json_line ''app'' ([DQ] @ ''hawk-tui'' @ [DQ]) True"] by auto
  moreover have "contains (DQ # k @ [DQ]) (json_line key (i64_to_string v) comma) \<longleftrightarrow> k = key"
    if "(key, v, comma) \<in> set (check_entries d)" for key v comma
    using t [OF check_entry_key [OF that]] k number_text [of DQ v] by (intro json_line_has) auto
  then have "filter (contains (DQ # k @ [DQ])) (map (\<lambda>(key, v, comma). json_line key (i64_to_string v) comma) (check_entries d)) =
      map (\<lambda>(key, v, comma). json_line key (i64_to_string v) comma) (filter (\<lambda>(key, _). k = key) (check_entries d))"
    unfolding filter_map by (intro arg_cong [of _ _ "map _"] filter_cong) auto
  ultimately show ?thesis unfolding check_json_entries by simp
qed

lemma bash_capture_line: "xs \<noteq> [] \<Longrightarrow> last xs \<noteq> LF \<Longrightarrow> bash_capture (xs @ [LF]) = xs"
  by (cases xs rule: rev_cases) (simp_all add: bash_capture_def)

lemma last_join: "p \<noteq> [] \<Longrightarrow> join [c] (ps @ [p]) \<noteq> [] \<and> last (join [c] (ps @ [p])) = last p"
proof (induction ps rule: induct_list012)
  case (3 a b ps)
  then show ?case by simp
qed simp_all

lemma check_json_LF: "l \<in> set (check_json d) \<Longrightarrow> LF \<notin> set l"
  using number_text [of LF] by (auto simp: check_json_def json_line_def)

lemma check_captured:
  "bash_capture (check_output d) = join [LF] (check_json d)" "records (bash_capture (check_output d) @ [LF]) = check_json d"
proof -
  have "check_json d = butlast (check_json d) @ [''}'']" by (simp add: check_json_def)
  with last_join [of "''}''" LF "butlast (check_json d)"] have "join [LF] (check_json d) \<noteq> [] \<and> last (join [LF] (check_json d)) = CHR ''}''"
    by (metis last_ConsL list.distinct(1))
  then show c: "bash_capture (check_output d) = join [LF] (check_json d)"
    unfolding check_output_def by (intro bash_capture_line) auto
  have "print_lines (check_json d) = join [LF] (check_json d) @ [LF]"
    by (rule print_lines_join) (simp add: check_json_def)
  then show "records (bash_capture (check_output d) @ [LF]) = check_json d"
    unfolding c using records_print_lines [of "check_json d"] check_json_LF by metis
qed

lemma check_entry_single:
  "(k, v, comma) \<in> set (check_entries d) \<Longrightarrow> filter (\<lambda>(key, _). k = key) (check_entries d) = [(k, v, comma)]"
  by (auto simp: check_entries_def)

lemma json_field_check:
  assumes "(k, v, comma) \<in> set (check_entries d)"
  shows "json_field k (bash_capture (check_output d)) = i64_to_string v"
proof -
  define n where "n = i64_to_string v"
  have n: "CHR '':'' \<notin> set n" "CHR '','' \<notin> set n" "LF \<notin> set n" "n \<noteq> []"
    using number_text [of _ v] by (auto simp: n_def)
  have k: "CHR '':'' \<notin> set k"
    using check_key_text check_entry_key [OF assms] unfolding list_all_iff by blast
  have "filter (\<lambda>c. c \<noteq> CHR '','') (second_field (json_line k n comma)) = n"
    unfolding second_field_line [OF k n(1)] using n(2) by (auto simp: filter_id_conv)
  then have "json_field k (bash_capture (check_output d)) = bash_capture (print_lines [n])"
    unfolding json_field_def check_captured(2) check_lines_key [OF check_entry_key [OF assms]] check_entry_single [OF assms]
    by (simp add: n_def)
  moreover have "last n \<noteq> LF" using n(3,4) last_in_set by metis
  ultimately show ?thesis using bash_capture_line [OF n(4)] by (simp add: print_lines_def n_def)
qed

text \<open>
  What \<open>--check\<close> prints, \<open>verify.sh\<close> reads back: for each of the six numbers of the
  report, the field that the script's awk program extracts by its key from the captured JSON
  is the decimal text of that number, and bash makes the number of it if it has 64 bits.
\<close>

theorem check_read_back:
  "list_all (\<lambda>(k, v, _). json_field k (bash_capture (check_output d)) = i64_to_string v
     \<and> bash_number (json_field k (bash_capture (check_output d))) = (if is_i64 v then Some v else None)) (check_entries d)"
proof -
  have "bash_number (i64_to_string v) = (if is_i64 v then Some v else None)" for v
    by (simp add: bash_number_def parse_i64_of_string check_i64_def)
  then show ?thesis by (auto simp: list_all_iff json_field_check)
qed

section \<open>The check\<close>

lemma py_space_bytes: "w \<in> set (map rev py_space) \<Longrightarrow> c \<in> set w \<Longrightarrow> \<not> token_char c"
  by (auto simp: py_space_def white_space_def token_char_def)

lemma py_strip_not_Nil: "token_char c \<Longrightarrow> py_strip (c # s) \<noteq> []"
proof
  assume c: "token_char c" and "py_strip (c # s) = []"
  then have "strip_pre (map rev py_space) (rev (c # s)) = []" by (simp add: py_strip_def strip_pre_token)
  with strip_pre_removed [of "map rev py_space" "rev (c # s)"] obtain us where
    us: "set us \<subseteq> set (map rev py_space)" "rev (c # s) = concat us" by auto
  have "c \<in> set (rev (c # s))" by simp
  then obtain w where "w \<in> set us" "c \<in> set w" unfolding us(2) by auto
  with us(1) py_space_bytes c show False by blast
qed

lemma splitlines_from_not_Nil: "splitlines_from acc s = [] \<Longrightarrow> acc = [] \<and> s = []"
proof (induction acc s rule: splitlines_from.induct)
  case (1 acc)
  then show ?case by (simp split: if_splits)
next
  case (2 acc x xs)
  show ?case
  proof (cases "find (\<lambda>w. w \<noteq> [] \<and> prefix w (x # xs)) line_breaks")
    case None
    with 2(3) have "splitlines_from (x # acc) xs = []" by (simp only: splitlines_from.simps(2) option.case)
    from 2(1) [OF None this] show ?thesis by simp
  next
    case (Some w)
    with 2(3) show ?thesis by (simp only: splitlines_from.simps(2) option.case list.distinct)
  qed
qed

lemma splitlines_not_Nil: "s \<noteq> [] \<Longrightarrow> splitlines s \<noteq> []"
  using splitlines_from_not_Nil unfolding splitlines_def by blast

lemma length_strip_pre: "length (strip_pre ws s) \<le> length s"
  using strip_pre_removed [of ws s] by (metis le_add2 length_append)

lemma length_py_strip: "length (py_strip s) \<le> length s"
  unfolding py_strip_def using length_strip_pre [of "map rev py_space" "rev (strip_pre py_space s)"] length_strip_pre [of py_space s]
  by simp

lemma length_splitlines_from: "length (splitlines_from acc s) \<le> length s + (if acc = [] then 0 else 1)"
proof (induction acc s rule: splitlines_from.induct)
  case (2 acc x xs)
  show ?case
  proof (cases "find (\<lambda>w. w \<noteq> [] \<and> prefix w (x # xs)) line_breaks")
    case None
    with 2(1) [OF None] show ?thesis by (simp only: splitlines_from.simps(2) option.case) simp
  next
    case (Some w)
    then have "w \<noteq> []" by (auto simp: find_Some_iff)
    then have "length (drop (length w) (x # xs)) \<le> length xs" by (cases w) auto
    with 2(2) [OF Some] show ?thesis
      unfolding splitlines_from.simps(2) Some option.case by (simp del: drop_Cons' drop_Suc_Cons)
  qed
qed simp

lemma length_splitlines: "length (splitlines s) \<le> length s"
  using length_splitlines_from [of "[]" s] by (simp add: splitlines_def)

lemma length_newest: "length (newest ls) \<le> length ls"
  by (induction ls) auto

lemma stream_lag_starts:
  fixes L :: "'v::linordered_idom awk_lib"
  assumes "\<And>ks. mset (ord ks) = mset ks" and "stream_names ls \<noteq> []"
  obtains s rest ps where "s \<in> set (stream_names ls)" "stream_lag_awk L ord now ls = (s @ rest) # ps"
proof -
  define st where "st = fold (lag_record L) ls \<lparr>lg_latest = [], lg_count = []\<rparr>"
  have keys: "mset (ord (map fst (lg_latest st))) = mset (stream_names ls)"
    unfolding st_def assms(1) by (rule stream_names_keys)
  then obtain s ks where k: "ord (map fst (lg_latest st)) = s # ks"
    using assms(2) by (cases "ord (map fst (lg_latest st))") auto
  then have "s \<in> set (stream_names ls)" using mset_eq_setD [OF keys] by auto
  moreover have "lg_latest st \<noteq> []"
    using keys assms by (metis list.simps(8) mset.simps(1) mset_zero_iff)
  then have "stream_lag_awk L ord now ls = lag_line L now st s # map (lag_line L now st) ks"
    by (simp add: stream_lag_awk_def st_def [symmetric] k)
  ultimately show thesis using that unfolding lag_line_def Let_def by blast
qed

lemma stream_name_tokens: "list_all (\<lambda>s. s \<noteq> [] \<and> token_char (hd s)) [''orders'', ''health'', ''agent'']"
  by code_simp

lemma polled_streams:
  fixes W :: "'v::linordered_idom cmd_world"
  assumes "runs_cmd cfg an W" and "\<And>ks. mset (cw_ord W ks) = mset ks" and "date_text now" and "\<And>i. date_text (clock i)"
    and "cw_stream_file W = Some (ff_stream (pulses clock 0 n (init_fake_env now)))"
  shows "\<exists>rows. rows \<noteq> [] \<and> length rows \<le> length (rs_out (hawk_cmd W [''run'', ''stream_lag'']))
    \<and> poll_streams cfg an c = c\<lparr>sc_stream_rows := rows, sc_stream_last := an_clock an\<rparr>"
proof -
  note names = fake_stream_names [where n = n and clock = clock, OF assms(3,4)]
  from stream_lag_starts [OF assms(2) names(1), of "cw_lib W" "cw_now W"] obtain s rest ps where
    s: "s \<in> set (stream_names (fake_stream clock now n))"
      "stream_lag_awk (cw_lib W) (cw_ord W) (cw_now W) (fake_stream clock now n) = (s @ rest) # ps" by blast
  define out where "out = py_strip (print_lines ((s @ rest) # ps))"
  have "s \<in> set [''orders'', ''health'', ''agent'']" using s(1) names(2) by auto
  then have "s \<noteq> [] \<and> token_char (hd s)" using stream_name_tokens unfolding list_all_iff by (rule bspec [rotated])
  then obtain x xs where x: "s = x # xs" "token_char x" by (metis list.exhaust_sel)
  then have out: "out \<noteq> []" unfolding out_def print_lines_def by (simp add: py_strip_not_Nil)
  have h: "hawk_cmd W [''run'', ''stream_lag''] = \<lparr>rs_out = print_lines ((s @ rest) # ps), rs_err = [], rs_code = 0\<rparr>"
    unfolding hawk_cmd_run cmd_run_def assms(5) s(2) [symmetric]
    by (simp add: fake_stream_records [where n = n and clock = clock, OF assms(3,4)])
  then have r: "run_capture an [cf_bin cfg, ''run'', ''stream_lag''] = (0, out)"
    by (simp add: run_capture_cmd [OF assms(1)] out_def)
  show ?thesis
    unfolding poll_streams_def r Let_def prod.case
    using splitlines_not_Nil [OF out] out le_trans [OF length_splitlines length_py_strip] unfolding h out_def by (intro exI [of _ "splitlines (py_strip (print_lines ((s @ rest) # ps)))"]) simp
qed

lemma poll_command_fields:
  assumes "poll_command cfg an c = Ok c'"
  shows "sc_command_catalog c' = sc_command_catalog c" "sc_grpc_ok c' = sc_grpc_ok c" "sc_stream_rows c' = sc_stream_rows c"
proof -
  have "\<exists>out t. c' = c\<lparr>sc_command_output := out, sc_command_last := t\<rparr>"
  proof (cases "sc_command_catalog c = []")
    case True
    with assms have "c' = c\<lparr>sc_command_output := [''no commands loaded''], sc_command_last := sc_command_last c\<rparr>"
      by (cases c) (auto simp: poll_command_def)
    then show ?thesis by blast
  next
    case False
    with assms show ?thesis
      unfolding poll_command_def by (cases "py_nth (sc_command_catalog c) (sc_selected_command c)")
        (auto simp: Let_def case_prod_beta)
  qed
  then show "sc_command_catalog c' = sc_command_catalog c" "sc_grpc_ok c' = sc_grpc_ok c" "sc_stream_rows c' = sc_stream_rows c"
    by auto
qed

lemma poll_logs_fields:
  assumes "an_log an = Some (sz, mtime, txt)" and "poll_logs_and_chat an (chat, c) = (chat', c')"
  shows "sc_command_catalog c' = sc_command_catalog c" "sc_grpc_ok c' = sc_grpc_ok c" "sc_stream_rows c' = sc_stream_rows c"
    "sc_log_size c' = sz"
  using assms by (auto simp: poll_logs_and_chat_def Let_def)

lemma fake_health_polled:
  assumes "runs_cmd cfg an W" and "\<And>ks. mset (cw_ord W ks) = mset ks"
    and "upper_ok (ab_upper (cw_lib W))" and "upper_ok (an_upper an)"
    and "gw_fake (cw_grpc W) = Some (ff_grpc (pulses clock 0 n (init_fake_env now)))"
  shows "1 \<le> sc_grpc_ok (poll_grpc cfg an c)" "sc_grpc_ok (poll_grpc cfg an c) \<le> 3 + int n"
    "sc_command_catalog (poll_grpc cfg an c) = sc_command_catalog c"
proof -
  define s where "s = ff_grpc (pulses clock 0 n (init_fake_env now))"
  have rec: "records s = init_health @ map health_event [1..<Suc n]" unfolding s_def by (rule fake_health_records(1))
  have h: "list_all health_line (records s)" unfolding rec by (rule fake_health_records(2))
  note poll = polled_health [OF assms(1) assms(5) [folded s_def] h assms(2,3,4), of c]
  obtain l where "l \<in> set (newest (records s))" and f: "fld 2 l = ''SERVING''"
    using fake_health_serving [of n] unfolding rec by blast
  then have l: "l \<in> set (emit_from_fake (cw_ord W) s)"
    using mset_eq_setD [OF emit_from_fake_newest [OF assms(2) h]] by blast
  have "gr_status (health_row l) = ''SERVING''"
    unfolding health_row_def grpc_row.simps f by code_simp
  with l have "filter (\<lambda>r. gr_status r = ''SERVING'') (map health_row (emit_from_fake (cw_ord W) s)) \<noteq> []"
    unfolding filter_empty_conv by auto
  then show "1 \<le> sc_grpc_ok (poll_grpc cfg an c)" unfolding poll by (simp add: filter_map Suc_le_eq)
  have "length (emit_from_fake (cw_ord W) s) \<le> length (records s)"
    using mset_eq_length [OF emit_from_fake_newest [OF assms(2) h]] length_newest [of "records s"] by simp
  also have "\<dots> = 3 + n" unfolding rec by (simp add: init_health_def)
  finally show "sc_grpc_ok (poll_grpc cfg an c) \<le> 3 + int n"
    unfolding poll using length_filter_le [of "\<lambda>r. gr_status r = ''SERVING''" "map health_row (emit_from_fake (cw_ord W) s)"]
    by (simp del: length_filter_le)
  show "sc_command_catalog (poll_grpc cfg an c) = sc_command_catalog c" unfolding poll by simp
qed

lemma verify_numbers:
  assumes "4 \<le> cd_commands d" "1 \<le> cd_grpc_ok d" "1 \<le> cd_stream_rows d" "0 < cd_log_size d"
    and "list_all is_i64 [cd_commands d, cd_grpc_ok d, cd_stream_rows d, cd_log_size d]"
  shows "verify out1 (bash_capture (check_output d)) = Some ([''verify passed'', bash_capture (check_output d)], 0)"
proof -
  have f: "json_field k (bash_capture (check_output d)) = i64_to_string v" "bash_number (i64_to_string v) = check_i64 v"
    if "(k, v, True) \<in> set (check_entries d)" for k v
    using json_field_check [OF that] by (simp_all add: bash_number_def parse_i64_of_string)
  have e: "(''commands'', cd_commands d, True) \<in> set (check_entries d)" "(''grpc_ok'', cd_grpc_ok d, True) \<in> set (check_entries d)"
    "(''stream_rows'', cd_stream_rows d, True) \<in> set (check_entries d)" "(''log_size'', cd_log_size d, True) \<in> set (check_entries d)"
    by (simp_all add: check_entries_def)
  show ?thesis unfolding verify_def Let_def f(1) [OF e(1)] f(1) [OF e(2)] f(1) [OF e(3)] f(1) [OF e(4)]
      f(2) [OF e(1)] f(2) [OF e(2)] f(2) [OF e(3)] f(2) [OF e(4)]
    using assms by (simp add: check_i64_def require_def)
qed

text \<open>
  C9: The acceptance test \<open>verify.sh\<close> passes. Whatever number of pulses has reached the log,
  the stream and the health file when they are read, the dashboard's check over the launcher,
  the adapters and the awk programs ends without an error, and the script finds in the JSON
  it prints numbers that satisfy all four conditions: four commands, an endpoint that serves,
  a stream, and a log that is not empty. It prints that it passed and exits with status 0.
  (The texts are assumed to be no longer than a signed 64-bit file size can say.)
\<close>

theorem verify_passes:
  fixes W :: "'v::linordered_idom cmd_world"
  assumes "runs_cmd cfg an W" and "\<And>ks. mset (cw_ord W ks) = mset ks"
    and "upper_ok (ab_upper (cw_lib W))" and "upper_ok (an_upper an)"
    and "date_text now" and "\<And>i. date_text (clock i)"
    and "an_log an = Some (int (length txt), mtime, txt)" and "txt = ff_log (pulses clock 0 k (init_fake_env now))"
    and "cw_stream_file W = Some (ff_stream (pulses clock 0 m (init_fake_env now)))"
    and "gw_fake (cw_grpc W) = Some (ff_grpc (pulses clock 0 n (init_fake_env now)))"
    and "is_i64 (int (length txt))" and "is_i64 (int (length (rs_out (hawk_cmd W [''run'', ''stream_lag'']))))"
    and "is_i64 (3 + int n)"
  shows "\<exists>d. run_check cfg an chat = Ok d
    \<and> verify out1 (bash_capture (check_output d)) = Some ([''verify passed'', bash_capture (check_output d)], 0)"
proof -
  define c1 where "c1 = poll_catalog cfg an cache_init"
  define c2 where "c2 = poll_grpc cfg an c1"
  define c3 where "c3 = poll_streams cfg an c2"
  have "map cr_id (sc_command_catalog c1) = [''grpc_health'', ''stream_lag'', ''tail_errors'', ''daemon_status'']"
    unfolding c1_def by (rule poll_catalog_launcher [OF assms(1)])
  from arg_cong [OF this, of length] have n1: "length (sc_command_catalog c1) = 4" by simp
  note health = fake_health_polled [OF assms(1-4,10), of c1, folded c2_def]
  obtain rows where rows: "rows \<noteq> []" "length rows \<le> length (rs_out (hawk_cmd W [''run'', ''stream_lag'']))"
      "c3 = c2\<lparr>sc_stream_rows := rows, sc_stream_last := an_clock an\<rparr>"
    using polled_streams [OF assms(1,2,5,6,9), of c2] unfolding c3_def by blast
  have "cache_ok c3"
    unfolding c3_def c2_def c1_def by (intro dash_keeps cache_ok_init)
  from poll_command_keeps [OF this] obtain c4 where c4: "poll_command cfg an c3 = Ok c4" by blast
  obtain chat' c5 where c5: "poll_logs_and_chat an (chat, c4) = (chat', c5)" by force
  have r: "refresh_all cfg an (chat, cache_init) = Ok (chat', c5)"
    by (simp add: refresh_all_def c1_def [symmetric] c2_def [symmetric] c3_def [symmetric] c4 c5)
  have "is_i64 (int (length rows))" using rows(2) assms(12) by (simp add: is_i64_def i64_min_def)
  moreover have "is_i64 (sc_grpc_ok c2)" using health(1,2) assms(13) by (simp add: is_i64_def i64_min_def)
  moreover have "1 \<le> length rows" using rows(1) by (cases rows) auto
  moreover have "0 < length txt" unfolding assms(8) pulses_files(1) by (simp add: init_fake_env_def print_lines_def)
  moreover have "is_i64 4" by code_simp
  moreover obtain d where d: "run_check cfg an chat = Ok d" "cd_commands d = int (length (sc_command_catalog c5))"
      "cd_grpc_ok d = sc_grpc_ok c5" "cd_stream_rows d = int (length (sc_stream_rows c5))" "cd_log_size d = sc_log_size c5"
    unfolding run_check_def r by force
  ultimately have "verify out1 (bash_capture (check_output d)) = Some ([''verify passed'', bash_capture (check_output d)], 0)"
    using poll_command_fields [OF c4] poll_logs_fields [OF assms(7) c5] rows(3) n1 health assms(11)
    by (intro verify_numbers) simp_all
  with d(1) show ?thesis by blast
qed

text \<open>Seven pulses in the log and the stream, six in the health file.\<close>

definition check_clock :: "nat \<Rightarrow> string" where
  "check_clock i = ''170000000'' @ to_dec (int (i mod 10))"

definition check_files :: "nat \<Rightarrow> fake_files" where
  "check_files n = pulses check_clock 0 n (init_fake_env ''1700000000'')"

definition check_world :: "int cmd_world" where
  "check_world = sample_world\<lparr>cw_stream_file := Some (ff_stream (check_files 7)),
     cw_grpc := \<lparr>gw_targets = None, gw_fake = Some (ff_grpc (check_files 6)), gw_probe = None\<rparr>\<rparr>"

definition check_answers :: dash_answers where
  "check_answers = \<lparr>an_run = (\<lambda>cmd. let r = hawk_cmd check_world (tl cmd) in Completed (rs_code r) (rs_out r) (rs_err r)),
     an_log = Some (int (length (ff_log (check_files 7))), ''12:00:00'', ff_log (check_files 7)),
     an_clock = ''12:00:00'', an_upper = map ascii_upper\<rparr>"

lemma check_dates: "date_text (check_clock i)"
proof -
  have "list_all (\<lambda>d. date_text (''170000000'' @ to_dec d)) [0, 1, 2, 3, 4, 5, 6, 7, 8, 9]" by code_simp
  moreover have "int (i mod 10) \<in> set [0, 1, 2, 3, 4, 5, 6, 7, 8, 9]" by (simp, presburger)
  ultimately show ?thesis unfolding check_clock_def list_all_iff by blast
qed

theorem verify_passes_witness:
  "\<exists>d. run_check sample_cfg check_answers None = Ok d
    \<and> verify [] (bash_capture (check_output d)) = Some ([''verify passed'', bash_capture (check_output d)], 0)"
proof (rule verify_passes [of sample_cfg check_answers check_world "''1700000000''" check_clock])
  show "runs_cmd sample_cfg check_answers check_world" by (simp add: runs_cmd_def check_answers_def)
  show "mset (cw_ord check_world ks) = mset ks" for ks by (simp add: check_world_def sample_world_def)
  show "upper_ok (ab_upper (cw_lib check_world))" "upper_ok (an_upper check_answers)"
    by (simp_all add: check_world_def sample_world_def sample_lib_def check_answers_def upper_ok_def)
  show "date_text ''1700000000''" by code_simp
  show "date_text (check_clock i)" for i by (rule check_dates)
  show "an_log check_answers = Some (int (length (ff_log (check_files 7))), ''12:00:00'', ff_log (check_files 7))"
    by (simp add: check_answers_def)
  show "ff_log (check_files 7) = ff_log (pulses check_clock 0 7 (init_fake_env ''1700000000''))"
    by (simp add: check_files_def)
  show "cw_stream_file check_world = Some (ff_stream (pulses check_clock 0 7 (init_fake_env ''1700000000'')))"
    "gw_fake (cw_grpc check_world) = Some (ff_grpc (pulses check_clock 0 6 (init_fake_env ''1700000000'')))"
    by (simp_all add: check_world_def check_files_def)
  show "is_i64 (int (length (ff_log (check_files 7))))"
    "is_i64 (int (length (rs_out (hawk_cmd check_world [''run'', ''stream_lag'']))))" "is_i64 (3 + int 6)"
    by code_simp+
qed

end
