(* ===== verification/Spec2Isabelle.thy ===== *)
theory Spec2Isabelle
  imports Hawkd_Main Dash_Draw Start_Scripts Verify_Script
begin

text \<open>
  Verification of Hawk-tui. Its Rust crates are a protocol of tab-separated lines
  (\<open>HawkFrame\<close>), a daemon \<open>hawkd\<close> that gathers such lines from several
  sources and broadcasts them on a Unix socket, and a mirror \<open>hawk\<close> that reads them,
  optionally through an awk transform, and shows the health of the entities they name.
  Beside them stand the awk threads of the bundled pack, which the mirror runs, and an older
  dashboard in Python with the shell and awk commands it polls.

  \<^bold>\<open>How the parts interact.\<close> Publishers write lines to the daemon's standard input
  or to its ingest socket; its gRPC and systemd watchers make lines of their own. Every
  producer thread sends on one channel, the spine, whose loop writes each message to all
  connected mirrors. A mirror's reader parses the lines into messages, the awk bridge may
  rewrite the frames, and the interface ingests the messages into a table of entities, which
  it draws with their liveness. The Python dashboard has a loop of its own: it runs
  \<open>bin/hawk-cmd\<close>, which runs an adapter or an awk program over a file, and parses the
  lines that come back.

  \<^bold>\<open>Foundations.\<close>
  \<^item> \<open>Hawk_Prelude\<close>: results and their inversion rules, comparisons and stable sorting,
    and the interfaces: \<open>total_preorder\<close>, \<open>invariant_system\<close> over reachable states,
    \<open>event_loop\<close> for a thread that handles events until one stops it, and interleavings
    of lists (\<open>merges\<close>).
  \<^item> \<open>Rust_Str\<close>, \<open>Rust_Path\<close>, \<open>Rust_Debug\<close>: what the sources use of the standard
    library on text, paths and \<open>Debug\<close> output. Text is the list of its UTF-8 bytes.
  \<^item> \<open>BTree_Map\<close>: \<open>BTreeMap\<close> as a strictly ordered association list, an instance of
    the map interfaces \<open>ordered_map\<close> and \<open>canonical_map\<close>.
  \<^item> \<open>Time_Api\<close>: the \<open>time\<close> crate as a parameter.

  \<^bold>\<open>The protocol, crates/hawk_core/src.\<close>
  \<^item> \<open>Severity\<close> (\<open>severity.rs\<close>) and \<open>Hawkframe\<close> (\<open>hawkframe.rs\<close>): levels,
    the parser, both printers and the key-value bag. Shown: a parsed frame survives printing
    and parsing, when a bag survives, the cause of each parse error, the type invariant of what
    is parsed, and the unit tests of the crate.
  \<^item> \<open>Frame_Emit\<close>: what a reader makes of frames put together from outside text, which
    the sources of the daemon print.

  \<^bold>\<open>The mirror, crates/hawk/src.\<close>
  \<^item> \<open>Hawk_Io\<close> (\<open>io.rs\<close>): the readers. Shown: no line is lost, and what strict mode
    cuts off.
  \<^item> \<open>Hawk_App\<close> (\<open>app.rs\<close>): the record \<open>app\<close> and its operations. Shown: it
    refines a function of the message history, its invariant, last frame wins, the partition
    of the counts, the order of the entity list, and how liveness ages.
  \<^item> \<open>Hawk_Packs\<close> (\<open>packs.rs\<close>): manifests, the index of threads and the schemas of
    their variables. Shown: the index is complete and unambiguous, scripts stay below their
    pack, unsafe manifests are rejected, and what variables are accepted.
  \<^item> \<open>Hawk_Doctor\<close> (\<open>doctor.rs\<close>): the checks of a pack directory. Shown: what a clean
    report certifies, what the security scan rejects, and the search for a word.
  \<^item> \<open>Hawk_Awk\<close> (\<open>awk.rs\<close>): starting awk and the threads of the bridge. Shown: with
    a copying transform it is the identity.
  \<^item> \<open>Hawk_Ui\<close> (\<open>ui.rs\<close>, \<open>ui/draw.rs\<close>): the terminal loop and the text of the
    widgets. Shown: what is ingested, when the loop ends and the terminal's state then, and
    the table.
  \<^item> \<open>Hawk_Main\<close> (\<open>main.rs\<close>): arguments, the choice of a transform, the threads
    between source and interface, and the pack commands. Shown: the script and variables of a
    transform, that the interleaving of the threads does not matter, and the pack commands.
  \<^item> \<open>Awk_Threads\<close> (\<open>packs/hawk.core/*.awk\<close>): the three threads of the bundled pack, as
    the process of the bridge. Threads that print or drop a line are instances of the
    interface \<open>line_filter\<close>. Shown: exactly which frames \<open>fail_only\<close> and
    \<open>systemd_focus\<close> deliver to the mirror, and that \<open>scope_counts\<close> loses no event.

  \<^bold>\<open>The daemon, crates/hawkd/src.\<close>
  \<^item> \<open>Hawkd_Ingest\<close> (\<open>unix_ingest.rs\<close>): the threads of publishers. Shown: what is
    forwarded, the shape of error reports, and the panic on clipping inside a character.
  \<^item> \<open>Hawkd_Backoff\<close>: the delays of a retry loop, an interface of both watchers.
  \<^item> \<open>Hawkd_Systemd\<close> (\<open>systemd.rs\<close>) and \<open>Hawkd_Grpc\<close> (\<open>grpc_health.rs\<close>): the
    watchers, their frames, endpoints and TLS. Shown: the exact delays, TLS configurations and
    the verified host.
  \<^item> \<open>Hawkd_Main\<close> (\<open>main.rs\<close>): the standard input source, accepting, broadcasting and
    start-up. Sends, connections and deliveries interleave in the relation \<open>spine_step\<close>.
    Shown: the broadcast loop, an invariant of all reachable states, and that the channel can
    be drained.

  \<^bold>\<open>The Python dashboard and its commands.\<close>
  \<^item> \<open>Hawk_Dash\<close> (\<open>hawk_tui.py\<close>): the cache (\<open>state_cache\<close>), one function for each
    poll, the keys, the main loop, \<open>--check\<close> and the layout. Shown: the loop raises no error
    and ends exactly at the quit key, an invariant of the reachable states, and that the panes
    fit.
  \<^item> \<open>Text_Wrap\<close> and \<open>Dash_Draw\<close> (\<open>hawk_tui.py\<close>, \<open>wrap_lines\<close> and the \<open>draw_\<close>
    functions): the wrapping of lines, with what it uses of \<open>textwrap\<close>, and the curses calls of
    every pane with their position, text and attributes. Shown: wrapping loses nothing and
    keeps to the width, every call stays on the screen, and the chat pane ends with the newest
    lines of the notes.
  \<^item> \<open>Hawk_Cmd\<close> (\<open>bin/hawk-cmd\<close>, \<open>awk/commands\<close>, \<open>adapters\<close>): each program with
    its output and exit status. Shown: the lines of a command reach the dashboard as they were
    printed, what it shows of the endpoints, that catalogue and launcher agree, and the lag
    of the streams.
  \<^item> \<open>Start_Scripts\<close> (\<open>bin/hawk-cmd\<close>, \<open>shims/example.sh\<close>, \<open>shell/run_fake.sh\<close>): the files
    that launcher and dashboard take from the environment, and what the start scripts set.
    Shown: when both work on the same files.
  \<^item> \<open>Fake_Env\<close> (\<open>shell/init_fake_env.sh\<close>, \<open>shell/emit_fake_activity.sh\<close>): the fake
    environment and its emitter. Shown: when the emitter ends.
  \<^item> \<open>Verify_Script\<close> (\<open>shell/verify.sh\<close>): the acceptance test on the text that \<open>--check\<close>
    prints. Shown: its awk program reads every number of the JSON back, and the test passes
    over dashboard, launcher, adapters and awk programs together.

  \<^bold>\<open>This theory\<close> joins daemon and mirror: the time-to-live values of the daemon's
  command line govern the mirror's liveness (\<open>daemon_ttl_honoured\<close>), and what enters the
  daemon's standard input arrives at a mirror (\<open>relay_end_to_end\<close>).

  \<^bold>\<open>Parameters.\<close> Code outside the repository is an argument: the \<open>time\<close> crate
  (\<open>rfc3339_ok\<close>: a formatted time parses back and has no other characters than those of
  RFC 3339; \<open>reformats\<close>: a parsed time can be formatted; the instance \<open>dec_time\<close>
  satisfies both), the file system, the \<open>toml\<close> parser, sockets and streams
  (\<open>writes_append\<close>: a write appends an initial part of the bytes, all of them on success),
  and the awk process, of which \<open>Awk_Threads\<close> gives the instances that run the bundled
  threads. What depends on the installed awk is an argument too: what looks like a number and
  the escapes of \<open>-v\<close> (\<open>awk_lang_ok\<close>: a text without a backslash has none), numbers and
  how they print, the order of keys, and \<open>toupper\<close>, as \<open>str.upper\<close> of Python
  (\<open>upper_ok\<close>: on printable ASCII they raise the letters). The answers of D-Bus, tonic,
  crossterm, curses, systemctl, grpcurl and the clock are data: one value for each call the
  code makes.

  \<^bold>\<open>Bounds.\<close> Counters are 64-bit words that wrap, delays are 64-bit words whose doubling
  is shown not to wrap, and \<open>i64\<close> values are integers with their range in the parser. No
  fuel is used: loops recurse structurally or by a measure, and one that runs forever is a
  function of the finite list of the events it has handled; \<open>None\<close> in \<open>tui_loop\<close>
  means that it is still running. The emitter, which reads no events, is a
  \<open>partial_function\<close> whose \<open>None\<close> is a loop without end.

  \<^bold>\<open>Not modelled.\<close>
  \<^item> Command line parsing by clap, the layout, styles and cells of ratatui, the protocols of
    tonic and zbus, awk programs other than those of
    the repository, and \<open>eprintln\<close> on the error stream of the
    bridge: they belong to other packages or have no effect on the state.
  \<^item> Blocking: a mirror that stops reading can stall \<open>write_all\<close> and with it the spine;
    the model has a write end, with success or failure.
  \<^item> Of the dashboard how curses shows the texts it is given, the colours behind the pairs
    (\<open>init_colors\<close>) and the typing at the prompt; of \<open>verify.sh\<close> what bash makes of an
    operand that is not a decimal number.
  \<^item> The banner of \<open>run.sh\<close> and the background emitter of \<open>shell/run_fake.sh\<close>, which have no
    part in what the dashboard is given; \<open>hawk_core/src/lib.rs\<close>, which only re-exports; the manifest
    \<open>packs/hawk.core/pack.toml\<close>, which is input of the loader; documentation and build files.
\<close>

section \<open>From the daemon's watchers to the mirror's liveness\<close>

text \<open>
  A printed line honours its time-to-live values: the mirror reads it, files it under its
  scope and id, and judges that entity by those values and not by its own defaults.
\<close>

definition honours_ttl :: "'t time_api \<Rightarrow> string \<Rightarrow> string \<Rightarrow> string \<Rightarrow> 't \<Rightarrow> int \<Rightarrow> int \<Rightarrow> bool" where
  "honours_ttl T m scope eid ts stale dead \<longleftrightarrow>
     (\<exists>f. parse_tsv_line T m = Ok (Some f)
        \<and> (\<forall>a t now. \<exists>st. bm_get (entities (ingest T t (Frame f) a)) (entity_key scope eid) = Some st
             \<and> compute_entity_liveness T (ingest T t (Frame f) a) st now =
                 compute_liveness_with_ttl T ts now stale dead))"

lemma honours_ttlI:
  assumes T: "rfc3339_ok T" and tabs: "tab_free f" and ts: "hf_ts f = Some ts"
    and fmt: "format_rfc3339 T ts = Some s" and key: "trimmed (hf_scope f)" "trimmed (hf_id f)"
    and kv: "bm_get (hf_kv (read_back ts f)) ''ttl_dead_s'' = Some (i64_to_string dead)"
      "bm_get (hf_kv (read_back ts f)) ''ttl_stale_s'' = Some (i64_to_string stale)"
    and pos: "is_i64 stale" "is_i64 dead" "0 < stale" "0 < dead"
  shows "honours_ttl T (to_tsv_line T f now @ [LF]) (hf_scope f) (hf_id f) ts stale dead"
proof -
  let ?f = "read_back ts f"
  have st: "stamp f now = ts" by (simp add: stamp_def ts)
  have p: "parse_tsv_line T (to_tsv_line T f now @ [LF]) = Ok (Some ?f)"
    using parse_emitted [OF T tabs, of now] fmt unfolding st by blast
  have k: "entity_key (hf_scope f) (hf_id f) = frame_key ?f"
    using key by (simp add: frame_key_def read_back_def)
  have ttl: "parse_ttl_from_kv (hf_kv ?f) ''ttl_stale_s'' = Some stale"
    "parse_ttl_from_kv (hf_kv ?f) ''ttl_dead_s'' = Some dead"
    unfolding parse_ttl_from_kv_def kv using pos by (simp_all add: parse_i64_to_string)
  have "es_kv (entity_of (t, ?f)) = hf_kv ?f" "es_last_seen (entity_of (t, ?f)) = ts" for t
    by (simp_all add: entity_of_def stamp_def read_back_def)
  then have live: "compute_entity_liveness T b (entity_of (t, ?f)) n = compute_liveness_with_ttl T ts n stale dead"
    for b t n
    unfolding compute_entity_liveness_def by (simp only: ttl ttl_or_def option.case)
  have "bm_get (entities (ingest T t (Frame ?f) a)) (frame_key ?f) = Some (entity_of (t, ?f))" for t a
    by (simp add: ingest_frame_eq)
  with p live show ?thesis
    unfolding honours_ttl_def k by blast
qed

text \<open>Texts a watcher passes on: the columns of its frames hold no TAB.\<close>

lemma watcher_frames_tab_free:
  "clean_field (us_id spec) \<Longrightarrow> tab_free_props [active, sub] \<Longrightarrow>
     tab_free (snapshot_frame spec cfg now active sub load desc)"
  "clean_field (us_id spec) \<Longrightarrow> TAB \<notin> set msg \<Longrightarrow> tab_free (systemd_error_frame spec cfg now msg err)"
  "clean_field (ws_id w) \<Longrightarrow> tab_free (status_frame G w gcfg now st)"
  "clean_field (ws_id w) \<Longrightarrow> TAB \<notin> set msg \<Longrightarrow> tab_free (grpc_error_frame w gcfg now msg err)"
proof -
  have "TAB \<notin> set (snd (status_level st))" by (cases st) simp_all
  then show "clean_field (ws_id w) \<Longrightarrow> tab_free (status_frame G w gcfg now st)"
    by (cases "status_level st") (simp add: tab_free_def status_frame_def clean_field_def Let_def)
qed (simp_all add: tab_free_def snapshot_frame_def systemd_error_frame_def grpc_error_frame_def
    clean_field_def tab_free_props_def Let_def)

lemma watcher_frames_key:
  "hf_scope (snapshot_frame spec cfg now active sub load desc) = ''systemd''"
  "hf_id (snapshot_frame spec cfg now active sub load desc) = us_id spec"
  "hf_ts (snapshot_frame spec cfg now active sub load desc) = Some now"
  "hf_scope (systemd_error_frame spec cfg now msg err) = ''systemd''"
  "hf_id (systemd_error_frame spec cfg now msg err) = us_id spec"
  "hf_ts (systemd_error_frame spec cfg now msg err) = Some now"
  "hf_scope (status_frame G w gcfg now st) = ''grpc''"
  "hf_id (status_frame G w gcfg now st) = ws_id w"
  "hf_ts (status_frame G w gcfg now st) = Some now"
  "hf_scope (grpc_error_frame w gcfg now msg err) = ''grpc''"
  "hf_id (grpc_error_frame w gcfg now msg err) = ws_id w"
  "hf_ts (grpc_error_frame w gcfg now msg err) = Some now"
  by (simp_all add: snapshot_frame_def systemd_error_frame_def status_frame_def grpc_error_frame_def
      Let_def split: prod.splits)

lemma trimmed_scopes: "trimmed ''systemd''" "trimmed ''grpc''"
  by code_simp+

text \<open>The thresholds a command line gives the two watchers, when they are usable.\<close>

definition ttl_ok :: "int \<Rightarrow> int \<Rightarrow> bool" where
  "ttl_ok stale dead \<longleftrightarrow> is_i64 stale \<and> is_i64 dead \<and> 0 < stale \<and> 0 < dead"

lemma systemd_ttl_honoured:
  assumes "rfc3339_ok T" and "format_rfc3339 T now = Some s" and "clean_field (us_id spec)"
    and "plain_unit (us_unit spec)" and "ttl_ok (sc_ttl_stale_s cfg) (sc_ttl_dead_s cfg)"
  shows "tab_free_props [active, sub, load, desc] \<Longrightarrow>
      honours_ttl T (to_tsv_line T (snapshot_frame spec cfg now active sub load desc) now @ [LF])
        ''systemd'' (us_id spec) now (sc_ttl_stale_s cfg) (sc_ttl_dead_s cfg)"
    "TAB \<notin> set msg \<Longrightarrow> TAB \<notin> set err \<Longrightarrow> honours_ttl T (systemd_emit_error T spec cfg now msg err)
        ''systemd'' (us_id spec) now (sc_ttl_stale_s cfg) (sc_ttl_dead_s cfg)"
proof -
  have t: "trimmed (us_id spec)" using assms(3) by (simp add: clean_field_def)
  note ttl = assms(5) [unfolded ttl_ok_def]
  assume a: "tab_free_props [active, sub, load, desc]"
  then have "tab_free_props [active, sub]" by (simp add: tab_free_props_def)
  from honours_ttlI [OF assms(1) watcher_frames_tab_free(1) [OF assms(3) this], unfolded watcher_frames_key,
      OF refl assms(2) trimmed_scopes(1) t snapshot_ttl [OF assms(4) a]] ttl
  show "honours_ttl T (to_tsv_line T (snapshot_frame spec cfg now active sub load desc) now @ [LF])
        ''systemd'' (us_id spec) now (sc_ttl_stale_s cfg) (sc_ttl_dead_s cfg)" by blast
next
  have t: "trimmed (us_id spec)" using assms(3) by (simp add: clean_field_def)
  note ttl = assms(5) [unfolded ttl_ok_def]
  assume m: "TAB \<notin> set msg" and e: "TAB \<notin> set err"
  from honours_ttlI [OF assms(1) watcher_frames_tab_free(2) [OF assms(3) m], unfolded watcher_frames_key,
      OF refl assms(2) trimmed_scopes(1) t systemd_error_ttl [OF assms(4) e]] ttl
  show "honours_ttl T (systemd_emit_error T spec cfg now msg err)
        ''systemd'' (us_id spec) now (sc_ttl_stale_s cfg) (sc_ttl_dead_s cfg)"
    unfolding systemd_emit_error_def by blast
qed

lemma grpc_ttl_honoured:
  assumes "rfc3339_ok T" and "format_rfc3339 T (fst now) = Some s" and "clean_field (ws_id w)"
    and "tab_free_props [ws_endpoint w, ws_service w]" and "ttl_ok (gc_ttl_stale_s cfg) (gc_ttl_dead_s cfg)"
  shows "TAB \<notin> set (st_debug G st) \<Longrightarrow> honours_ttl T (emit_status_frame T G w cfg now st)
        ''grpc'' (ws_id w) (fst now) (gc_ttl_stale_s cfg) (gc_ttl_dead_s cfg)"
    "TAB \<notin> set msg \<Longrightarrow> TAB \<notin> set err \<Longrightarrow> honours_ttl T (grpc_emit_error T w cfg now msg err)
        ''grpc'' (ws_id w) (fst now) (gc_ttl_stale_s cfg) (gc_ttl_dead_s cfg)"
proof -
  have t: "trimmed (ws_id w)" using assms(3) by (simp add: clean_field_def)
  have e: "TAB \<notin> set (ws_endpoint w)" "TAB \<notin> set (ws_service w)"
    using assms(4) by (simp_all add: tab_free_props_def)
  have k: "TAB \<notin> set ''grpc_status''" by simp
  note ttl = assms(5) [unfolded ttl_ok_def]
  assume d: "TAB \<notin> set (st_debug G st)"
  from honours_ttlI [OF assms(1) watcher_frames_tab_free(3) [OF assms(3)], unfolded watcher_frames_key,
      OF refl assms(2) trimmed_scopes(2) t grpc_ttl [OF status_frame_kv e(1) k d e(2)]] ttl
  show "honours_ttl T (emit_status_frame T G w cfg now st)
        ''grpc'' (ws_id w) (fst now) (gc_ttl_stale_s cfg) (gc_ttl_dead_s cfg)"
    unfolding emit_status_frame_def by blast
next
  have t: "trimmed (ws_id w)" using assms(3) by (simp add: clean_field_def)
  have e: "TAB \<notin> set (ws_endpoint w)" "TAB \<notin> set (ws_service w)"
    using assms(4) by (simp_all add: tab_free_props_def)
  have k: "TAB \<notin> set ''error''" by simp
  note ttl = assms(5) [unfolded ttl_ok_def]
  assume m: "TAB \<notin> set msg" and r: "TAB \<notin> set err"
  from honours_ttlI [OF assms(1) watcher_frames_tab_free(4) [OF assms(3) m], unfolded watcher_frames_key,
      OF refl assms(2) trimmed_scopes(2) t grpc_ttl [OF grpc_error_frame_kv e(1) k r e(2)]] ttl
  show "honours_ttl T (grpc_emit_error T w cfg now msg err)
        ''grpc'' (ws_id w) (fst now) (gc_ttl_stale_s cfg) (gc_ttl_dead_s cfg)"
    unfolding grpc_emit_error_def by blast
qed



section \<open>From the daemon's standard input to a mirror\<close>

text \<open>A line of standard input with the clock reading at which the daemon handles it.\<close>

definition stdin_event :: "string \<times> 't \<Rightarrow> 't client_event" where
  "stdin_event ln = ClientLine (fst ln) (snd ln)"

definition parsed_at :: "'t time_api \<Rightarrow> string \<times> 't \<Rightarrow> ('t hawk_frame \<times> 't) option" where
  "parsed_at T ln = (case parse_tsv_line T (fst ln) of Inr (Some f) \<Rightarrow> Some (f, snd ln) | _ \<Rightarrow> None)"

text \<open>The frames that lines of standard input stand for, with their timestamps filled in.\<close>

definition input_frames :: "'t time_api \<Rightarrow> (string \<times> 't) list \<Rightarrow> 't hawk_frame list" where
  "input_frames T ls = map stamped (List.map_filter (parsed_at T) ls)"

definition relayable :: "'t time_api \<Rightarrow> string \<times> 't \<Rightarrow> bool" where
  "relayable T ln \<longleftrightarrow> one_line (fst ln) \<and> format_rfc3339 T (snd ln) \<noteq> None
     \<and> (case parse_tsv_line T (fst ln) of Inr (Some f) \<Rightarrow> no_ghost_flag (hf_kv f) | _ \<Rightarrow> True)"

lemma stdin_source_frames:
  "stdin_source T U False (map stdin_event ls) =
     map (\<lambda>fn. printed T fn @ [LF]) (List.map_filter (parsed_at T) ls)"
  by (induction ls)
    (auto simp: stdin_event_def parsed_at_def printed_def map_filter_def split: sum.splits option.splits)

lemma relayed_frame:
  assumes "rfc3339_ok T" and "reformats T" and "relayable T ln" and "parsed_at T ln = Some fn"
  shows "clean_frame (fst fn) \<and> lf_free (fst fn) \<and> line_msgs T (printed T fn) = [Frame (stamped fn)]"
proof -
  obtain f where f: "parse_tsv_line T (fst ln) = Ok (Some f)" "fn = (f, snd ln)"
    using assms(4) by (auto simp: parsed_at_def split: sum.splits option.splits)
  with assms(3) have r: "one_line (fst ln)" "format_rfc3339 T (snd ln) \<noteq> None" "no_ghost_flag (hf_kv f)"
    by (simp_all add: relayable_def)
  obtain s where "format_rfc3339 T (stamp f (snd ln)) = Some s"
    using parsed_stamp_formats [OF assms(2) r(2) f(1)] by blast
  from parse_to_tsv_line(1) [OF assms(1) clean_parsed_frame [OF f(1)] r(3) this]
  show ?thesis
    using clean_parsed_frame [OF f(1)] lf_free_parsed [OF f(1) r(1)]
    by (simp add: line_msgs.simps printed_def stamped_def f(2))
qed

text \<open>A line that starts with the banner's hash is a comment.\<close>

lemma hash_line_msgs: "line_msgs T (CHR ''#'' # r) = []"
proof -
  have h: "\<not> ws_byte CHR ''#''" by code_simp
  have "CHR ''#'' \<notin> set [LF, CR]" by code_simp
  from trim_end_matches_keep [OF this, of "[]" r]
  have "trim_end_matches [LF, CR] (CHR ''#'' # r) = CHR ''#'' # trim_end_matches [LF, CR] r" by simp
  then have "ignorable (CHR ''#'' # r)"
    unfolding ignorable_def Let_def by (simp add: trim_start_nonws_head [OF h])
  then show ?thesis by (simp add: line_msgs.simps parse_tsv_line_cases)
qed

lemma chomp_hash: "\<exists>r'. chomp_cr (CHR ''#'' # r) = CHR ''#'' # r'"
  by (cases r rule: rev_cases) (auto simp: chomp_cr_def suffix_def Cons_eq_append_conv)

text \<open>The comment may swallow the line after it, when the banner was cut.\<close>

definition stream_msgs :: "'t time_api \<Rightarrow> string \<Rightarrow> 't ingest_msg list" where
  "stream_msgs T bytes = concat (map (line_msgs T) (lines bytes))"

lemma stream_msgs_hash:
  "LF \<notin> set r \<Longrightarrow> stream_msgs T ((CHR ''#'' # r) @ LF # t) = stream_msgs T t"
  "LF \<notin> set r \<Longrightarrow> stream_msgs T (CHR ''#'' # r) = []"
proof -
  assume "LF \<notin> set r"
  then have l: "LF \<notin> set (CHR ''#'' # r)" by simp
  obtain r' where "chomp_cr (CHR ''#'' # r) = CHR ''#'' # r'" using chomp_hash by blast
  then show "stream_msgs T ((CHR ''#'' # r) @ LF # t) = stream_msgs T t"
    unfolding stream_msgs_def lines_Cons [OF l] by (simp add: hash_line_msgs)
  have "lines (CHR ''#'' # r) = [CHR ''#'' # r]"
    unfolding lines_def split_on_no_sep [OF l] by simp
  then show "stream_msgs T (CHR ''#'' # r) = []"
    by (simp add: stream_msgs_def hash_line_msgs)
qed

lemma banner_prefix_cases:
  assumes "prefix p (banner_text banner)"
  obtains (none) "p = []" | (part) r where "p = CHR ''#'' # r" "LF \<notin> set r"
    | (full) r where "p = (CHR ''#'' # r) @ [LF]" "LF \<notin> set r"
proof (cases "p = [] \<or> \<not> banner")
  case True
  with assms none show thesis by (auto simp: banner_text_def)
next
  case False
  let ?r = "'' hawkd connected''"
  have r: "LF \<notin> set ?r" by code_simp
  from False assms have "prefix p ((CHR ''#'' # ?r) @ [LF])" by (simp add: banner_text_def)
  then consider "p = (CHR ''#'' # ?r) @ [LF]" | "prefix p (CHR ''#'' # ?r)"
    unfolding prefix_snoc by blast
  then show thesis
  proof cases
    case 1
    with r full show thesis by blast
  next
    case 2
    with False obtain q where q: "p = CHR ''#'' # q" "prefix q ?r" by (cases p) auto
    from r set_mono_prefix [OF q(2)] have "LF \<notin> set q" by blast
    with q(1) part show thesis by blast
  qed
qed

lemma stream_msgs_printed:
  assumes "rfc3339_ok T"
    and "\<forall>fn \<in> set fs. clean_frame (fst fn) \<and> lf_free (fst fn)
      \<and> line_msgs T (printed T fn) = [Frame (stamped fn)]"
  shows "stream_msgs T (concat (map (\<lambda>fn. printed T fn @ [LF]) fs)) = map Frame (map stamped fs)"
proof -
  have "stream_msgs T (concat (map (\<lambda>fn. printed T fn @ [LF]) fs)) = concat (map (line_msgs T) (map (printed T) fs))"
    unfolding stream_msgs_def using lines_printed [OF assms(1), of fs] assms(2) by simp
  also have "\<dots> = map Frame (map stamped fs)"
    using assms(2) by (induction fs) simp_all
  finally show ?thesis .
qed

lemma count_printed:
  assumes "rfc3339_ok T" and "\<forall>fn \<in> set fs. lf_free (fst fn)"
  shows "count_list (concat (map (\<lambda>fn. printed T fn @ [LF]) fs)) LF = length fs"
  using assms(2)
proof (induction fs)
  case (Cons fn fs)
  then have "count_list (printed T fn) LF = 0"
    using lf_free_to_tsv_line [OF assms(1), of "fst fn"] by (simp add: printed_def count_list_0_iff)
  with Cons show ?case by simp
qed simp

lemma client_stream:
  assumes "rfc3339_ok T" and "prefix p (banner_text banner)"
    and fs: "\<forall>fn \<in> set fs. clean_frame (fst fn) \<and> lf_free (fst fn)
      \<and> line_msgs T (printed T fn) = [Frame (stamped fn)]"
    and bytes: "bytes = p @ concat (map (\<lambda>fn. printed T fn @ [LF]) fs)"
  shows "\<exists>j. stream_msgs T bytes = map Frame (drop j (map stamped fs))
    \<and> count_list bytes LF \<le> Suc (length fs - j)"
  using assms(2)
proof (cases rule: banner_prefix_cases)
  case none
  then show ?thesis
    using stream_msgs_printed [OF assms(1) fs] count_printed [OF assms(1), of fs] fs
    by (intro exI [of _ 0]) (simp add: bytes)
next
  case (full r)
  then have "count_list p LF = 1" by (simp add: count_list_0_iff)
  then show ?thesis
    using full stream_msgs_printed [OF assms(1) fs] stream_msgs_hash(1) [OF full(2), of T]
      count_printed [OF assms(1), of fs] fs
    by (intro exI [of _ 0]) (simp add: bytes)
next
  case (part r)
  then have p: "count_list p LF = 0" by (simp add: count_list_0_iff)
  show ?thesis
  proof (cases fs)
    case Nil
    then show ?thesis using part p stream_msgs_hash(2) [OF part(2), of T] by (simp add: bytes)
  next
    case (Cons fn fs')
    with fs have "LF \<notin> set (r @ printed T fn)"
      using part(2) lf_free_to_tsv_line [OF assms(1), of "fst fn"] by (simp add: printed_def)
    from stream_msgs_hash(1) [OF this, of T "concat (map (\<lambda>fn. printed T fn @ [LF]) fs')"]
    have "stream_msgs T bytes = stream_msgs T (concat (map (\<lambda>fn. printed T fn @ [LF]) fs'))"
      by (simp add: bytes part(1) Cons)
    also have "\<dots> = map Frame (map stamped fs')"
      using fs Cons by (intro stream_msgs_printed [OF assms(1)]) simp
    finally have "stream_msgs T bytes = map Frame (drop 1 (map stamped fs))" by (simp add: Cons)
    moreover have "count_list bytes LF = length fs"
      using count_printed [OF assms(1), of fs] fs p by (simp add: bytes)
    ultimately show ?thesis by (intro exI [of _ 1]) simp
  qed
qed


definition relay_env :: "(unit, int) hawkd_env" where
  "relay_env =
     \<lparr>he_sock = \<lparr>sk_remove_file = (\<lambda>_ w. w), sk_bind = (\<lambda>_ w. Ok w)\<rparr>, he_ingest = [],
      he_stdin = map stdin_event [(sample_line, 7)], he_net = (\<lambda>_. []), he_bus = (\<lambda>_. [])\<rparr>"

definition relay_message :: string where
  "relay_message = to_tsv_line dec_time sample_frame 7 @ [LF]"

definition relay_spine :: "(string \<times> nat) spine" where
  "relay_spine =
     spine_deliver bounded_write (spine_send relay_message
       (spine_accept bounded_write True (Ok ([], 500)) spine_new))"

lemma reach_relay_spine: "reach spine_start (spine_step bounded_write fst True) relay_spine"
proof -
  have "reach spine_start (spine_step bounded_write fst True) spine_new"
    by (rule reach_start) (simp add: spine_start_def)
  then show ?thesis
    unfolding relay_spine_def by (intro reach_spine_intros) (simp_all add: spine_send_def)
qed

lemma relay_spine_main:
  "hawkd_main dec_time U G relay_env hawkd_cli_default () = Ok ((), [[relay_message]])"
proof -
  have "stdin_source dec_time U False [stdin_event (sample_line, 7)] = [relay_message]"
    using sample_line_parses by (simp add: stdin_event_def relay_message_def)
  then show ?thesis
    by (simp add: hawkd_main_def hawkd_cli_default_def relay_env_def Let_def result_simps)
qed


end
